theory Spec2Isabelle
  imports Complex_Main
begin

text \<open>
  A shallow embedding of the turnip price predictor of acnh-data
  (\<^verbatim>\<open>src/features/turnip-friends\<close>): the utilities (\<^verbatim>\<open>utils.ts\<close>), the discrete
  rate PDF (\<^verbatim>\<open>pdf.ts\<close>) and the predictor (\<^verbatim>\<open>predictionEngine.ts\<close>), followed by
  the properties proved of them.

  Conventions. Every JavaScript number is a \<open>number\<close> below. A method that mutates
  its object returns the new object. A function that can throw returns \<open>error + 'a\<close>.
  A generator is the list of the items it yields, built eagerly; an exception raised
  while a generator runs is the result of the whole call, as it is for the
  \<^verbatim>\<open>Array.from\<close> that consumes it. The field \<^verbatim>\<open>fudgeFactor\<close> of the predictor,
  which the phase generators read, is passed to them as the argument \<open>F\<close>.
\<close>

section \<open>JavaScript numbers\<close>

text \<open>
  A JavaScript \<^verbatim>\<open>number\<close> is either a finite value, one of the two infinities, or
  NaN. Finite values are idealised as reals: the arithmetic of the model is exact, so a
  statement "up to rounding" of the specification is read as an exact equation, and the
  two signed zeros are one value. The special values follow IEEE 754 as JavaScript
  exposes them: NaN is contagious, every comparison with NaN is false, \<open>0 / 0\<close> is NaN
  and \<open>x / 0\<close> is an infinity for \<open>x \<noteq> 0\<close>. \<^verbatim>\<open>Math.log\<close> is the natural
  logarithm \<open>ln\<close>; it occurs in the peak phase only.

  A limit of this idealisation: where the program rounds a quotient or a product to a
  double and then takes a floor or a ceiling (\<^verbatim>\<open>get_price\<close> of a rate obtained from a
  given price), the exact value of the model can lie on the other side of an integer, so
  the price differs by one (the exact rate of 152 at the base price 90 gives the price
  153 here where the rounded one gives 152), and two rows of the summary whose keys are
  equal here can be ordered by a rounding difference in the program. The properties
  below are statements about the model with exact arithmetic.
\<close>

datatype number = Fin real | PInf | NInf | NaN

instantiation number :: "{plus, minus, times, uminus, divide, abs, ord}"
begin

fun uminus_number :: "number \<Rightarrow> number" where
  "uminus_number (Fin x) = Fin (- x)"
| "uminus_number PInf = NInf"
| "uminus_number NInf = PInf"
| "uminus_number NaN = NaN"

fun abs_number :: "number \<Rightarrow> number" where
  "abs_number (Fin x) = Fin \<bar>x\<bar>"
| "abs_number PInf = PInf"
| "abs_number NInf = PInf"
| "abs_number NaN = NaN"

fun plus_number :: "number \<Rightarrow> number \<Rightarrow> number" where
  "plus_number (Fin x) (Fin y) = Fin (x + y)"
| "plus_number NaN y = NaN"
| "plus_number x NaN = NaN"
| "plus_number PInf NInf = NaN"
| "plus_number NInf PInf = NaN"
| "plus_number PInf y = PInf"
| "plus_number x PInf = PInf"
| "plus_number NInf y = NInf"
| "plus_number x NInf = NInf"

definition minus_number :: "number \<Rightarrow> number \<Rightarrow> number" where
  "minus_number x y = x + (- y)"

fun times_number :: "number \<Rightarrow> number \<Rightarrow> number" where
  "times_number (Fin x) (Fin y) = Fin (x * y)"
| "times_number NaN y = NaN"
| "times_number x NaN = NaN"
| "times_number PInf (Fin y) = (if y = 0 then NaN else if 0 < y then PInf else NInf)"
| "times_number NInf (Fin y) = (if y = 0 then NaN else if 0 < y then NInf else PInf)"
| "times_number (Fin x) PInf = (if x = 0 then NaN else if 0 < x then PInf else NInf)"
| "times_number (Fin x) NInf = (if x = 0 then NaN else if 0 < x then NInf else PInf)"
| "times_number PInf PInf = PInf"
| "times_number PInf NInf = NInf"
| "times_number NInf PInf = NInf"
| "times_number NInf NInf = PInf"

fun divide_number :: "number \<Rightarrow> number \<Rightarrow> number" where
  "divide_number (Fin x) (Fin y) =
     (if y = 0 then (if x = 0 then NaN else if 0 < x then PInf else NInf) else Fin (x / y))"
| "divide_number NaN y = NaN"
| "divide_number x NaN = NaN"
| "divide_number (Fin x) PInf = Fin 0"
| "divide_number (Fin x) NInf = Fin 0"
| "divide_number PInf (Fin y) = (if 0 \<le> y then PInf else NInf)"
| "divide_number NInf (Fin y) = (if 0 \<le> y then NInf else PInf)"
| "divide_number PInf y = NaN"
| "divide_number NInf y = NaN"

fun less_number :: "number \<Rightarrow> number \<Rightarrow> bool" where
  "less_number (Fin x) (Fin y) = (x < y)"
| "less_number NaN y = False"
| "less_number x NaN = False"
| "less_number x NInf = False"
| "less_number PInf y = False"
| "less_number NInf y = True"
| "less_number x PInf = True"

definition less_eq_number :: "number \<Rightarrow> number \<Rightarrow> bool" where
  "less_eq_number x y = (x < y \<or> (x = y \<and> x \<noteq> NaN))"

instance ..

end

instantiation number :: inverse
begin

definition inverse_number :: "number \<Rightarrow> number" where
  "inverse_number x = Fin 1 div x"

instance ..

end

text \<open>The comparisons \<^verbatim>\<open>==\<close> and \<^verbatim>\<open>===\<close> on numbers: NaN is not equal to itself.\<close>

definition js_eq :: "number \<Rightarrow> number \<Rightarrow> bool" where
  "js_eq x y = (x = y \<and> x \<noteq> NaN)"

definition isNaN :: "number \<Rightarrow> bool" where
  "isNaN x = (x = NaN)"

fun is_finite :: "number \<Rightarrow> bool" where
  "is_finite (Fin x) = True"
| "is_finite x = False"

text \<open>\<^verbatim>\<open>Math.max\<close> and \<^verbatim>\<open>Math.min\<close> of two arguments: NaN if either is NaN.\<close>

definition Math_max :: "number \<Rightarrow> number \<Rightarrow> number" where
  "Math_max x y = (if x = NaN \<or> y = NaN then NaN else if x < y then y else x)"

definition Math_min :: "number \<Rightarrow> number \<Rightarrow> number" where
  "Math_min x y = (if x = NaN \<or> y = NaN then NaN else if y < x then y else x)"

text \<open>
  \<^verbatim>\<open>Math.max(...xs)\<close> and \<^verbatim>\<open>Math.min(...xs)\<close> of a spread array: the fold starts
  from \<open>-Infinity\<close> and \<open>+Infinity\<close>, which is what an empty array returns.
\<close>

definition Math_max_list :: "number list \<Rightarrow> number" where
  "Math_max_list xs = fold (\<lambda>x acc. Math_max acc x) xs NInf"

definition Math_min_list :: "number list \<Rightarrow> number" where
  "Math_min_list xs = fold (\<lambda>x acc. Math_min acc x) xs PInf"

fun Math_floor :: "number \<Rightarrow> number" where
  "Math_floor (Fin x) = Fin (of_int \<lfloor>x\<rfloor>)"
| "Math_floor x = x"

fun Math_ceil :: "number \<Rightarrow> number" where
  "Math_ceil (Fin x) = Fin (of_int \<lceil>x\<rceil>)"
| "Math_ceil x = x"

text \<open>\<^verbatim>\<open>Math.round\<close> rounds half up: \<open>floor (x + 1/2)\<close>.\<close>

fun Math_round :: "number \<Rightarrow> number" where
  "Math_round (Fin x) = Fin (of_int \<lfloor>x + 1 / 2\<rfloor>)"
| "Math_round x = x"

fun Math_trunc :: "number \<Rightarrow> number" where
  "Math_trunc (Fin x) = Fin (of_int (if 0 \<le> x then \<lfloor>x\<rfloor> else \<lceil>x\<rceil>))"
| "Math_trunc x = x"

fun Math_log :: "number \<Rightarrow> number" where
  "Math_log (Fin x) = (if x < 0 then NaN else if x = 0 then NInf else Fin (ln x))"
| "Math_log PInf = PInf"
| "Math_log NInf = NaN"
| "Math_log NaN = NaN"

text \<open>
  An array element is a number or an empty slot (\<open>None\<close>), which reads as
  \<^verbatim>\<open>undefined\<close>; so does an index outside the array. Arithmetic turns
  \<^verbatim>\<open>undefined\<close> into NaN.
\<close>

type_synonym slot = "number option"

fun to_num :: "slot \<Rightarrow> number" where
  "to_num (Some x) = x"
| "to_num None = NaN"

text \<open>
  An array index is an integer in \<open>[0, 2^32 - 2]\<close>; every other number names an
  ordinary property of the array object, not an element.
\<close>

fun array_index :: "number \<Rightarrow> nat option" where
  "array_index (Fin x) =
     (if x = of_int \<lfloor>x\<rfloor> \<and> 0 \<le> x \<and> x < 2 ^ 32 - 1 then Some (nat \<lfloor>x\<rfloor>) else None)"
| "array_index x = None"

definition arr_get :: "'a option list \<Rightarrow> number \<Rightarrow> 'a option" where
  "arr_get xs i =
     (case array_index i of None \<Rightarrow> None
      | Some k \<Rightarrow> if k < length xs then xs ! k else None)"

datatype error = RangeError | TypeError | Error string | Diverges

text \<open>
  \<^verbatim>\<open>Array(n)\<close> makes \<open>n\<close> empty slots when \<open>n\<close> is an integer in \<open>[0, 2^32 - 1]\<close>
  and throws a RangeError for every other number.
\<close>

fun Array_len :: "number \<Rightarrow> error + nat" where
  "Array_len (Fin x) =
     (if x = of_int \<lfloor>x\<rfloor> \<and> 0 \<le> x \<and> x < 2 ^ 32 then Inr (nat \<lfloor>x\<rfloor>) else Inl RangeError)"
| "Array_len x = Inl RangeError"

section \<open>Range utilities and compensated summation\<close>

type_synonym range = "number \<times> number"

definition rangeLength :: "range option \<Rightarrow> number" where
  "rangeLength r = (case r of None \<Rightarrow> Fin 0 | Some (lo, hi) \<Rightarrow> hi - lo)"

definition rangeIntersect :: "range \<Rightarrow> range \<Rightarrow> range option" where
  "rangeIntersect range1 range2 =
     (if snd range2 < fst range1 \<or> snd range1 < fst range2 then None
      else Some (Math_max (fst range1) (fst range2), Math_min (snd range1) (snd range2)))"

definition rangeIntersectLength :: "range \<Rightarrow> range \<Rightarrow> number" where
  "rangeIntersectLength range1 range2 =
     (if snd range2 < fst range1 \<or> snd range1 < fst range2 then Fin 0
      else rangeLength (rangeIntersect range1 range2))"

definition clamp :: "number \<Rightarrow> number \<Rightarrow> number \<Rightarrow> number" where
  "clamp x mn mx = Math_min (Math_max x mn) mx"

text \<open>
  One step of Neumaier's summation on the pair \<open>(sum, c)\<close>; \<^verbatim>\<open>floatSum\<close> and
  \<^verbatim>\<open>prefixFloatSum\<close> run the same loop body.
\<close>

definition neumaier_step :: "number \<Rightarrow> number \<times> number \<Rightarrow> number \<times> number" where
  "neumaier_step cur sc =
     (let sum = fst sc; c = snd sc; t = sum + cur
      in if \<bar>cur\<bar> \<le> \<bar>sum\<bar> then (t, c + (sum - t + cur)) else (t, c + (cur - t + sum)))"

definition floatSum :: "slot list \<Rightarrow> number" where
  "floatSum input = (let sc = fold (\<lambda>x. neumaier_step (to_num x)) input (Fin 0, Fin 0)
                     in fst sc + snd sc)"

fun prefix_loop :: "slot list \<Rightarrow> number \<times> number \<Rightarrow> (number \<times> number) list" where
  "prefix_loop [] sc = []"
| "prefix_loop (x # xs) sc = (let sc' = neumaier_step (to_num x) sc in sc' # prefix_loop xs sc')"

definition prefixFloatSum :: "slot list \<Rightarrow> (number \<times> number) list" where
  "prefixFloatSum input = (Fin 0, Fin 0) # prefix_loop input (Fin 0, Fin 0)"

section \<open>Exceptions\<close>

text \<open>
  A function that can throw returns \<open>error + 'a\<close>; \<open>ebind\<close> passes the first
  exception on, and \<open>emap\<close> runs a function over a list from left to right.
\<close>

definition ebind :: "error + 'a \<Rightarrow> ('a \<Rightarrow> error + 'b) \<Rightarrow> error + 'b" where
  "ebind m f = (case m of Inl e \<Rightarrow> Inl e | Inr x \<Rightarrow> f x)"

fun emap :: "('a \<Rightarrow> error + 'b) \<Rightarrow> 'a list \<Rightarrow> error + 'b list" where
  "emap f [] = Inr []"
| "emap f (x # xs) = ebind (f x) (\<lambda>y. ebind (emap f xs) (\<lambda>ys. Inr (y # ys)))"

section \<open>The discrete rate PDF (pdf.ts)\<close>

record PDF =
  valueStart :: number
  valueEnd :: number
  prob :: "slot list"

definition range_of :: "PDF \<Rightarrow> number \<Rightarrow> range" where
  "range_of pdf idx = (valueStart pdf + idx, valueStart pdf + idx + Fin 1)"

definition min_value :: "PDF \<Rightarrow> number" where
  "min_value pdf = valueStart pdf"

definition max_value :: "PDF \<Rightarrow> number" where
  "max_value pdf = valueEnd pdf"

text \<open>
  The constructor. \<^verbatim>\<open>Array(valueEnd - valueStart)\<close> leaves every slot empty; only
  the uniform branch assigns them.
\<close>

definition PDF_new :: "number \<Rightarrow> number \<Rightarrow> bool \<Rightarrow> error + PDF" where
  "PDF_new a b uniform =
     (let vs = Math_floor a; ve = Math_ceil b;
          rng = (a, b);
          total_length = rangeLength (Some rng)
      in ebind (Array_len (ve - vs)) (\<lambda>n.
           let this = \<lparr>valueStart = vs, valueEnd = ve, prob = replicate n None\<rparr>
           in Inr (if uniform
                   then this\<lparr>prob := map (\<lambda>i. Some (rangeIntersectLength
                                  (range_of this (Fin (real i))) rng / total_length)) [0..<n]\<rparr>
                   else this)))"

definition normalize :: "PDF \<Rightarrow> number \<times> PDF" where
  "normalize pdf =
     (let total_probability = floatSum (prob pdf)
      in (total_probability,
          pdf\<lparr>prob := map (\<lambda>x. Some (to_num x / total_probability)) (prob pdf)\<rparr>))"

text \<open>
  \<^verbatim>\<open>xs[i] *= v\<close>: an element inside the array is updated, an index beyond the end
  extends the array with empty slots, and a number that is no array index leaves the
  elements as they are.
\<close>

definition arr_mul :: "slot list \<Rightarrow> number \<Rightarrow> number \<Rightarrow> slot list" where
  "arr_mul xs i v =
     (case array_index i of None \<Rightarrow> xs
      | Some k \<Rightarrow>
          if k < length xs then xs[k := Some (to_num (xs ! k) * v)]
          else xs @ replicate (k - length xs) None @ [Some (to_num None * v)])"

text \<open>
  The number of rounds of \<^verbatim>\<open>for (let i = a; i < b; i++)\<close>, whose counter takes the
  values \<open>a, a + 1, ...\<close>; the loop never ends when \<open>a\<close> is \<open>-Infinity\<close> or \<open>b\<close> is
  \<open>+Infinity\<close> and the first test succeeds.
\<close>

fun for_count :: "number \<Rightarrow> number \<Rightarrow> error + nat" where
  "for_count (Fin x) (Fin y) = Inr (nat \<lceil>y - x\<rceil>)"
| "for_count (Fin x) PInf = Inl Diverges"
| "for_count NInf (Fin y) = Inl Diverges"
| "for_count NInf PInf = Inl Diverges"
| "for_count a b = Inr 0"

text \<open>\<^verbatim>\<open>Array.prototype.slice\<close> with its relative, clamped indices.\<close>

fun rel_index :: "number \<Rightarrow> nat \<Rightarrow> nat" where
  "rel_index (Fin r) len =
     (let t = (if 0 \<le> r then \<lfloor>r\<rfloor> else \<lceil>r\<rceil>)
      in if t < 0 then nat (max (int len + t) 0) else min (nat t) len)"
| "rel_index PInf len = len"
| "rel_index NInf len = 0"
| "rel_index NaN len = 0"

definition slice :: "'a list \<Rightarrow> number \<Rightarrow> number \<Rightarrow> 'a list" where
  "slice xs a b =
     (let k = rel_index a (length xs); final = rel_index b (length xs)
      in take (final - k) (drop k xs))"

definition range_limit :: "PDF \<Rightarrow> range \<Rightarrow> error + (number \<times> PDF)" where
  "range_limit pdf rng =
     (let start = Math_max (fst rng) (min_value pdf);
          end = Math_min (snd rng) (max_value pdf)
      in if end \<le> start
         then Inr (Fin 0, \<lparr>valueStart = Fin 0, valueEnd = Fin 0, prob = []\<rparr>)
         else
           let start = Math_floor start;
               end = Math_ceil end;
               start_idx = start - valueStart pdf;
               end_idx = end - valueStart pdf
           in ebind (for_count start_idx end_idx) (\<lambda>n.
                let scaled = fold (\<lambda>k p. let i = start_idx + Fin (real k)
                                          in arr_mul p i (rangeIntersectLength (range_of pdf i) rng))
                               [0..<n] (prob pdf)
                in Inr (normalize \<lparr>valueStart = start, valueEnd = end,
                                    prob = slice scaled start_idx end_idx\<rparr>)))"

text \<open>
  \<^verbatim>\<open>prefix[x][0]\<close> throws a TypeError when \<open>x\<close> is not an index of \<open>prefix\<close>.
\<close>

definition prefix_get :: "(number \<times> number) list \<Rightarrow> number \<Rightarrow> error + number \<times> number" where
  "prefix_get prefix x =
     (case arr_get (map Some prefix) x of None \<Rightarrow> Inl TypeError | Some p \<Rightarrow> Inr p)"

definition decay_entry ::
  "PDF \<Rightarrow> (number \<times> number) list \<Rightarrow> number \<Rightarrow> number \<Rightarrow> nat \<Rightarrow> error + slot" where
  "decay_entry pdf prefix max_X max_Y k =
     (let i = Fin (real k);
          left = Math_max (Fin 0) (i - max_Y);
          right = Math_min (max_X - Fin 1) i
      in ebind (prefix_get prefix (right + Fin 1)) (\<lambda>pr.
         ebind (prefix_get prefix left) (\<lambda>pl.
           let numbers_to_sum =
                 [Some (fst pr), Some (snd pr), Some (- fst pl), Some (- snd pl)]
                 @ (if js_eq left (i - max_Y)
                    then [Some (- to_num (arr_get (prob pdf) left) / Fin 2)] else [])
                 @ (if js_eq right i
                    then [Some (- to_num (arr_get (prob pdf) right) / Fin 2)] else [])
           in Inr (Some (floatSum numbers_to_sum / max_Y)))))"

definition decay :: "PDF \<Rightarrow> number \<Rightarrow> number \<Rightarrow> error + PDF" where
  "decay pdf rate_decay_min rate_decay_max =
     (let rate_decay_min = Math_round rate_decay_min;
          rate_decay_max = Math_round rate_decay_max;
          prefix = prefixFloatSum (prob pdf);
          max_X = Fin (real (length (prob pdf)));
          max_Y = rate_decay_max - rate_decay_min
      in ebind (Array_len (max_X + max_Y)) (\<lambda>n.
         ebind (emap (decay_entry pdf prefix max_X max_Y) [0..<n]) (\<lambda>newProb.
           Inr \<lparr>valueStart = valueStart pdf - rate_decay_max,
                valueEnd = valueEnd pdf - rate_decay_min,
                prob = newProb\<rparr>)))"

section \<open>The predictor (predictionEngine.ts)\<close>

record MinMax =
  min_price :: number
  max_price :: number

record scenario =
  patternNumber :: nat
  patternName :: string
  prices :: "MinMax list"
  probability :: number

record PredicationResult = scenario +
  weekGuaranteedMinimum :: number
  weekMax :: number
  categoryTotalProbability :: number

text \<open>What a caller can pass where the optional \<^verbatim>\<open>previousPattern\<close> is expected.\<close>

datatype jsval = Undefined | Null | Num number

definition Pattern_name :: "nat \<Rightarrow> string" where
  "Pattern_name n =
     (if n = 0 then ''FLUCTUATING'' else if n = 1 then ''LARGE_SPIKE''
      else if n = 2 then ''DECREASING'' else ''SMALL_SPIKE'')"

definition PROBABILITY_MATRIX :: "number list list" where
  "PROBABILITY_MATRIX =
     [[Fin 0.2, Fin 0.3, Fin 0.15, Fin 0.35],
      [Fin 0.5, Fin 0.05, Fin 0.2, Fin 0.25],
      [Fin 0.25, Fin 0.45, Fin 0.05, Fin 0.25],
      [Fin 0.45, Fin 0.25, Fin 0.15, Fin 0.15]]"

definition RATE_MULTIPLIER :: number where
  "RATE_MULTIPLIER = Fin 10000"

text \<open>
  Reading a price array by index: an index outside the array gives \<^verbatim>\<open>undefined\<close>,
  which \<^verbatim>\<open>isNaN\<close> and the arithmetic treat as NaN.
\<close>

definition num_at :: "number list \<Rightarrow> int \<Rightarrow> number" where
  "num_at xs i = (if 0 \<le> i \<and> i < int (length xs) then xs ! nat i else NaN)"

text \<open>\<^verbatim>\<open>predicted_prices[i].min\<close> throws a TypeError when the element is missing.\<close>

definition pred_at :: "MinMax list \<Rightarrow> int \<Rightarrow> error + MinMax" where
  "pred_at xs i = (if 0 \<le> i \<and> i < int (length xs) then Inr (xs ! nat i) else Inl TypeError)"

definition intCeil :: "number \<Rightarrow> number" where
  "intCeil val = Math_trunc (val + Fin 0.99999)"

definition minimum_rate_from_given_and_base :: "number \<Rightarrow> number \<Rightarrow> number" where
  "minimum_rate_from_given_and_base given_price buy_price =
     (RATE_MULTIPLIER * (given_price - Fin 0.99999)) / buy_price"

definition maximum_rate_from_given_and_base :: "number \<Rightarrow> number \<Rightarrow> number" where
  "maximum_rate_from_given_and_base given_price buy_price =
     (RATE_MULTIPLIER * (given_price + Fin 0.00001)) / buy_price"

definition rate_range_from_given_and_base :: "number \<Rightarrow> number \<Rightarrow> range" where
  "rate_range_from_given_and_base given_price buy_price =
     (minimum_rate_from_given_and_base given_price buy_price,
      maximum_rate_from_given_and_base given_price buy_price)"

definition get_price :: "number \<Rightarrow> number \<Rightarrow> number" where
  "get_price rate basePrice = intCeil ((rate * basePrice) / RATE_MULTIPLIER)"

text \<open>
  A generator is modelled by the list of the items it yields; the spread
  \<^verbatim>\<open>{...it, probability: ...}\<close> copies every other field of the item.
\<close>

definition multiply_generator_probability ::
  "('a scenario_scheme) list \<Rightarrow> number \<Rightarrow> ('a scenario_scheme) list" where
  "multiply_generator_probability generator p =
     map (\<lambda>it. it\<lparr>probability := probability it * p\<rparr>) generator"

subsection \<open>Phase generators\<close>

text \<open>
  Each phase function takes the fudge factor of the predictor (\<open>F\<close>), returns the
  probability and the extended \<^verbatim>\<open>predicted_prices\<close>; the loops run over the slots
  \<open>start, ..., start + length - 1\<close>.
\<close>

fun individual_loop ::
  "number \<Rightarrow> number list \<Rightarrow> number \<Rightarrow> number \<Rightarrow> int list \<Rightarrow> number \<times> MinMax list
    \<Rightarrow> number \<times> MinMax list" where
  "individual_loop F given_prices rate_min rate_max [] (prob', predicted_prices) =
     (prob', predicted_prices)"
| "individual_loop F given_prices rate_min rate_max (i # rest) (prob', predicted_prices) =
     (let buy_price = num_at given_prices 0;
          rate_range = (rate_min, rate_max);
          min_pred = get_price rate_min buy_price;
          max_pred = get_price rate_max buy_price;
          given = num_at given_prices i
      in if \<not> isNaN given then
           if given < min_pred - F \<or> max_pred + F < given then (Fin 0, predicted_prices)
           else
             let real_rate_range =
                   rate_range_from_given_and_base (clamp given min_pred max_pred) buy_price;
                 prob' = prob' * (rangeIntersectLength rate_range real_rate_range
                                / rangeLength (Some rate_range))
             in individual_loop F given_prices rate_min rate_max rest
                  (prob', predicted_prices @ [\<lparr>min_price = given, max_price = given\<rparr>])
         else individual_loop F given_prices rate_min rate_max rest
                (prob', predicted_prices @ [\<lparr>min_price = min_pred, max_price = max_pred\<rparr>]))"

definition generate_individual_random_price ::
  "number \<Rightarrow> number list \<Rightarrow> MinMax list \<Rightarrow> int \<Rightarrow> int \<Rightarrow> number \<Rightarrow> number
    \<Rightarrow> number \<times> MinMax list" where
  "generate_individual_random_price F given_prices predicted_prices start len rate_min rate_max =
     (let rate_min = rate_min * RATE_MULTIPLIER;
          rate_max = rate_max * RATE_MULTIPLIER
      in individual_loop F given_prices rate_min rate_max [start..start + len - 1]
           (Fin 1, predicted_prices))"

fun decreasing_loop ::
  "number \<Rightarrow> number list \<Rightarrow> number \<Rightarrow> number \<Rightarrow> int list \<Rightarrow> number \<times> MinMax list \<times> PDF
    \<Rightarrow> error + number \<times> MinMax list" where
  "decreasing_loop F given_prices rate_decay_min rate_decay_max []
     (prob', predicted_prices, rate_pdf) = Inr (prob', predicted_prices)"
| "decreasing_loop F given_prices rate_decay_min rate_decay_max (i # rest)
     (prob', predicted_prices, rate_pdf) =
     (let buy_price = num_at given_prices 0;
          min_pred = get_price (min_value rate_pdf) buy_price;
          max_pred = get_price (max_value rate_pdf) buy_price;
          given = num_at given_prices i
      in if \<not> isNaN given then
           if given < min_pred - F \<or> max_pred + F < given then Inr (Fin 0, predicted_prices)
           else
             let real_rate_range =
                   rate_range_from_given_and_base (clamp given min_pred max_pred) buy_price
             in ebind (range_limit rate_pdf real_rate_range) (\<lambda>(mass, rate_pdf).
                  let prob' = prob' * mass
                  in if js_eq prob' (Fin 0) then Inr (Fin 0, predicted_prices)
                     else ebind (decay rate_pdf rate_decay_min rate_decay_max) (\<lambda>rate_pdf.
                            decreasing_loop F given_prices rate_decay_min rate_decay_max rest
                              (prob', predicted_prices @ [\<lparr>min_price = given, max_price = given\<rparr>],
                               rate_pdf)))
         else ebind (decay rate_pdf rate_decay_min rate_decay_max) (\<lambda>rate_pdf'.
                decreasing_loop F given_prices rate_decay_min rate_decay_max rest
                  (prob', predicted_prices @ [\<lparr>min_price = min_pred, max_price = max_pred\<rparr>],
                   rate_pdf')))"

definition generate_decreasing_random_price ::
  "number \<Rightarrow> number list \<Rightarrow> MinMax list \<Rightarrow> int \<Rightarrow> int \<Rightarrow> number \<Rightarrow> number \<Rightarrow> number \<Rightarrow> number
    \<Rightarrow> error + number \<times> MinMax list" where
  "generate_decreasing_random_price F given_prices predicted_prices start len
     start_rate_min start_rate_max rate_decay_min rate_decay_max =
     (let start_rate_min = start_rate_min * RATE_MULTIPLIER;
          start_rate_max = start_rate_max * RATE_MULTIPLIER;
          rate_decay_min = rate_decay_min * RATE_MULTIPLIER;
          rate_decay_max = rate_decay_max * RATE_MULTIPLIER
      in ebind (PDF_new start_rate_min start_rate_max True) (\<lambda>rate_pdf.
           decreasing_loop F given_prices rate_decay_min rate_decay_max [start..start + len - 1]
             (Fin 1, predicted_prices, rate_pdf)))"

text \<open>
  The peak. \<open>peak_sides\<close> is the loop over the left and the right price; \<open>None\<close>
  stands for its \<^verbatim>\<open>return 0\<close>, taken before any price is pushed.
\<close>

definition peak_F :: "number \<Rightarrow> number \<Rightarrow> number" where
  "peak_F t ZZ =
     (if t \<le> Fin 0 then Fin 0
      else if ZZ < t then ZZ else t - t * (Math_log t - Math_log ZZ))"

definition peak_PY :: "range \<Rightarrow> number \<Rightarrow> number \<Rightarrow> number" where
  "peak_PY rate_range rate_min t =
     (let A = fst rate_range; B = snd rate_range;
          C = rate_min;
          Z1 = A - C;
          Z2 = B - C
      in (peak_F (t - C) Z2 - peak_F (t - C) Z1) / (Z2 - Z1))"

fun peak_sides ::
  "number \<Rightarrow> number \<Rightarrow> number \<Rightarrow> range \<Rightarrow> number list \<Rightarrow> number \<Rightarrow> number option" where
  "peak_sides F buy_price rate_min rate_range [] prob' = Some prob'"
| "peak_sides F buy_price rate_min rate_range (price # rest) prob' =
     (if isNaN price then peak_sides F buy_price rate_min rate_range rest prob'
      else
        let min_pred = get_price rate_min buy_price - Fin 1;
            max_pred = get_price (snd rate_range) buy_price - Fin 1
        in if price < min_pred - F \<or> max_pred + F < price then None
           else
             let rate2_range =
                   rate_range_from_given_and_base (clamp price min_pred max_pred + Fin 1) buy_price;
                 prob' = prob' * (peak_PY rate_range rate_min (snd rate2_range)
                                  - peak_PY rate_range rate_min (fst rate2_range))
             in if js_eq prob' (Fin 0) then None
                else peak_sides F buy_price rate_min rate_range rest prob')"

text \<open>
  The first step of the peak: the middle price. It returns \<open>None\<close> for
  \<^verbatim>\<open>return 0\<close>, else the probability and the narrowed rate range;
  \<^verbatim>\<open>rangeIntersect(...) ?? []\<close> leaves both ends \<^verbatim>\<open>undefined\<close> on null.
\<close>

definition peak_middle ::
  "number \<Rightarrow> number \<Rightarrow> number \<Rightarrow> number \<Rightarrow> number \<Rightarrow> (number \<times> range) option" where
  "peak_middle F buy_price rate_min rate_max middle_price =
     (let rate_range = (rate_min, rate_max)
      in if \<not> isNaN middle_price then
           let min_pred = get_price rate_min buy_price;
               max_pred = get_price rate_max buy_price
           in if middle_price < min_pred - F \<or> max_pred + F < middle_price then None
              else
                let real_rate_range =
                      rate_range_from_given_and_base
                        (clamp middle_price min_pred max_pred) buy_price;
                    prob' = Fin 1 * (rangeIntersectLength rate_range real_rate_range
                                     / rangeLength (Some rate_range))
                in if js_eq prob' (Fin 0) then None
                   else Some (prob',
                          case rangeIntersect rate_range real_rate_range of
                            None \<Rightarrow> (NaN, NaN)
                          | Some r \<Rightarrow> r)
         else Some (Fin 1, rate_range))"

definition generate_peak_price ::
  "number \<Rightarrow> number list \<Rightarrow> MinMax list \<Rightarrow> int \<Rightarrow> number \<Rightarrow> number
    \<Rightarrow> error + number \<times> MinMax list" where
  "generate_peak_price F given_prices predicted_prices start rate_min rate_max =
     (let rate_min = rate_min * RATE_MULTIPLIER;
          rate_max = rate_max * RATE_MULTIPLIER;
          buy_price = num_at given_prices 0;
          middle_price = num_at given_prices (start + 1)
      in case peak_middle F buy_price rate_min rate_max middle_price of
           None \<Rightarrow> Inr (Fin 0, predicted_prices)
         | Some (prob', rate_range) \<Rightarrow>
             let left_price = num_at given_prices start;
                 right_price = num_at given_prices (start + 2)
             in case peak_sides F buy_price rate_min rate_range [left_price, right_price] prob' of
                  None \<Rightarrow> Inr (Fin 0, predicted_prices)
                | Some prob' \<Rightarrow>
                    let min_pred = get_price rate_min buy_price - Fin 1;
                        max_pred = get_price rate_max buy_price - Fin 1;
                        spike1 = (if \<not> isNaN (num_at given_prices start)
                                  then \<lparr>min_price = num_at given_prices start,
                                        max_price = num_at given_prices start\<rparr>
                                  else \<lparr>min_price = min_pred, max_price = max_pred\<rparr>);
                        predicted_prices = predicted_prices @ [spike1]
                    in ebind (pred_at predicted_prices start) (\<lambda>at_start.
                         let min_pred = min_price at_start;
                             max_pred = get_price rate_max buy_price;
                             spike2 = (if \<not> isNaN (num_at given_prices (start + 1))
                                       then \<lparr>min_price = num_at given_prices (start + 1),
                                             max_price = num_at given_prices (start + 1)\<rparr>
                                       else \<lparr>min_price = min_pred, max_price = max_pred\<rparr>);
                             predicted_prices = predicted_prices @ [spike2]
                         in ebind (pred_at predicted_prices (start + 1)) (\<lambda>at_middle.
                              let min_pred = get_price rate_min buy_price - Fin 1;
                                  max_pred = max_price at_middle - Fin 1;
                                  spike3 = (if \<not> isNaN (num_at given_prices (start + 2))
                                            then \<lparr>min_price = num_at given_prices (start + 2),
                                                  max_price = num_at given_prices (start + 2)\<rparr>
                                            else \<lparr>min_price = min_pred, max_price = max_pred\<rparr>)
                              in Inr (prob', predicted_prices @ [spike3]))))"

subsection \<open>Pattern generators\<close>

definition buy_slots :: "number list \<Rightarrow> MinMax list" where
  "buy_slots given_prices =
     (let buy_price = num_at given_prices 0
      in [\<lparr>min_price = buy_price, max_price = buy_price\<rparr>,
          \<lparr>min_price = buy_price, max_price = buy_price\<rparr>])"

definition yield_scenario :: "nat \<Rightarrow> MinMax list \<Rightarrow> number \<Rightarrow> scenario list" where
  "yield_scenario n predicted_prices probability' =
     [\<lparr>patternNumber = n, patternName = Pattern_name n, prices = predicted_prices,
       probability = probability'\<rparr>]"

definition generate_pattern_0_with_lengths ::
  "number \<Rightarrow> number list \<Rightarrow> int \<Rightarrow> int \<Rightarrow> int \<Rightarrow> int \<Rightarrow> int \<Rightarrow> error + scenario list" where
  "generate_pattern_0_with_lengths F given_prices high_phase_1_len dec_phase_1_len
     high_phase_2_len dec_phase_2_len high_phase_3_len =
     (let predicted_prices = buy_slots given_prices;
          probability' = Fin 1;
          (m, predicted_prices) = generate_individual_random_price F given_prices
             predicted_prices 2 high_phase_1_len (Fin 0.9) (Fin 1.4);
          probability' = probability' * m
      in if js_eq probability' (Fin 0) then Inr []
         else ebind (generate_decreasing_random_price F given_prices predicted_prices
                      (2 + high_phase_1_len) dec_phase_1_len
                      (Fin 0.6) (Fin 0.8) (Fin 0.04) (Fin 0.1)) (\<lambda>(m, predicted_prices).
           let probability' = probability' * m
           in if js_eq probability' (Fin 0) then Inr []
              else
                let (m, predicted_prices) = generate_individual_random_price F given_prices
                       predicted_prices (2 + high_phase_1_len + dec_phase_1_len)
                       high_phase_2_len (Fin 0.9) (Fin 1.4);
                    probability' = probability' * m
                in if js_eq probability' (Fin 0) then Inr []
                   else ebind (generate_decreasing_random_price F given_prices predicted_prices
                                (2 + high_phase_1_len + dec_phase_1_len + high_phase_2_len)
                                dec_phase_2_len
                                (Fin 0.6) (Fin 0.8) (Fin 0.04) (Fin 0.1)) (\<lambda>(m, predicted_prices).
                     let probability' = probability' * m
                     in if js_eq probability' (Fin 0) then Inr []
                        else if 2 + high_phase_1_len + dec_phase_1_len + high_phase_2_len
                                  + dec_phase_2_len + high_phase_3_len \<noteq> 14
                        then Inl (Error ''Phase lengths don't add up'')
                        else
                          let prev_length = 2 + high_phase_1_len + dec_phase_1_len
                                              + high_phase_2_len + dec_phase_2_len;
                              (m, predicted_prices) = generate_individual_random_price F
                                 given_prices predicted_prices prev_length (14 - prev_length)
                                 (Fin 0.9) (Fin 1.4);
                              probability' = probability' * m
                          in if js_eq probability' (Fin 0) then Inr []
                             else Inr (yield_scenario 0 predicted_prices probability'))))"

text \<open>
  The hidden parameters of pattern 0 in the order of the three nested loops:
  \<open>(dec_phase_1_len, high_phase_1_len, high_phase_3_len)\<close>.
\<close>

definition pattern_0_lengths :: "(int \<times> int \<times> int) list" where
  "pattern_0_lengths =
     concat (map (\<lambda>dec_phase_1_len.
       concat (map (\<lambda>high_phase_1_len.
         map (\<lambda>high_phase_3_len. (dec_phase_1_len, high_phase_1_len, high_phase_3_len))
           [0..7 - high_phase_1_len - 1 + 1 - 1])
         [0..6]))
       [2..3])"

definition generate_pattern_0 :: "number \<Rightarrow> number list \<Rightarrow> error + scenario list" where
  "generate_pattern_0 F given_prices =
     ebind (emap (\<lambda>(dec_phase_1_len, high_phase_1_len, high_phase_3_len).
                    ebind (generate_pattern_0_with_lengths F given_prices
                             high_phase_1_len dec_phase_1_len
                             (7 - high_phase_1_len - high_phase_3_len)
                             (5 - dec_phase_1_len) high_phase_3_len) (\<lambda>g.
                      Inr (multiply_generator_probability g
                             (Fin 1 / Fin (4 - 2) / Fin 7 / Fin (real_of_int (7 - high_phase_1_len))))))
                  pattern_0_lengths)
       (\<lambda>gs. Inr (concat gs))"

definition min_randoms :: "number list" where
  "min_randoms = [Fin 0.9, Fin 1.4, Fin 2.0, Fin 1.4, Fin 0.9, Fin 0.4, Fin 0.4, Fin 0.4,
                  Fin 0.4, Fin 0.4, Fin 0.4]"

definition max_randoms :: "number list" where
  "max_randoms = [Fin 1.4, Fin 2.0, Fin 6.0, Fin 2.0, Fin 1.4, Fin 0.9, Fin 0.9, Fin 0.9,
                  Fin 0.9, Fin 0.9, Fin 0.9]"

text \<open>The loop of pattern 1 over the slots from the peak on; \<open>None\<close> is its \<^verbatim>\<open>return\<close>.\<close>

fun pattern_1_loop ::
  "number \<Rightarrow> number list \<Rightarrow> int \<Rightarrow> int list \<Rightarrow> number \<times> MinMax list
    \<Rightarrow> (number \<times> MinMax list) option" where
  "pattern_1_loop F given_prices peak_start [] (probability', predicted_prices) =
     Some (probability', predicted_prices)"
| "pattern_1_loop F given_prices peak_start (i # rest) (probability', predicted_prices) =
     (let (m, predicted_prices) = generate_individual_random_price F given_prices
             predicted_prices i 1 (num_at min_randoms (i - peak_start))
             (num_at max_randoms (i - peak_start));
          probability' = probability' * m
      in if js_eq probability' (Fin 0) then None
         else pattern_1_loop F given_prices peak_start rest (probability', predicted_prices))"

definition generate_pattern_1_with_peak ::
  "number \<Rightarrow> number list \<Rightarrow> int \<Rightarrow> error + scenario list" where
  "generate_pattern_1_with_peak F given_prices peak_start =
     (let predicted_prices = buy_slots given_prices;
          probability' = Fin 1
      in ebind (generate_decreasing_random_price F given_prices predicted_prices
                  2 (peak_start - 2) (Fin 0.85) (Fin 0.9) (Fin 0.03) (Fin 0.05))
           (\<lambda>(m, predicted_prices).
              let probability' = probability' * m
              in if js_eq probability' (Fin 0) then Inr []
                 else case pattern_1_loop F given_prices peak_start [peak_start..13]
                             (probability', predicted_prices) of
                        None \<Rightarrow> Inr []
                      | Some (probability', predicted_prices) \<Rightarrow>
                          Inr (yield_scenario 1 predicted_prices probability')))"

definition generate_pattern_1 :: "number \<Rightarrow> number list \<Rightarrow> error + scenario list" where
  "generate_pattern_1 F given_prices =
     ebind (emap (\<lambda>peak_start.
                    ebind (generate_pattern_1_with_peak F given_prices peak_start) (\<lambda>g.
                      Inr (multiply_generator_probability g (Fin 1 / Fin (10 - 3)))))
                  [3..9])
       (\<lambda>gs. Inr (concat gs))"

definition generate_pattern_2 :: "number \<Rightarrow> number list \<Rightarrow> error + scenario list" where
  "generate_pattern_2 F given_prices =
     (let predicted_prices = buy_slots given_prices;
          probability' = Fin 1
      in ebind (generate_decreasing_random_price F given_prices predicted_prices
                  2 (14 - 2) (Fin 0.85) (Fin 0.9) (Fin 0.03) (Fin 0.05))
           (\<lambda>(m, predicted_prices).
              let probability' = probability' * m
              in if js_eq probability' (Fin 0) then Inr []
                 else Inr (yield_scenario 2 predicted_prices probability')))"

definition generate_pattern_3_with_peak ::
  "number \<Rightarrow> number list \<Rightarrow> int \<Rightarrow> error + scenario list" where
  "generate_pattern_3_with_peak F given_prices peak_start =
     (let predicted_prices = buy_slots given_prices;
          probability' = Fin 1
      in ebind (generate_decreasing_random_price F given_prices predicted_prices
                  2 (peak_start - 2) (Fin 0.4) (Fin 0.9) (Fin 0.03) (Fin 0.05))
           (\<lambda>(m, predicted_prices).
              let probability' = probability' * m
              in if js_eq probability' (Fin 0) then Inr []
                 else
                   let (m, predicted_prices) = generate_individual_random_price F given_prices
                          predicted_prices peak_start 2 (Fin 0.9) (Fin 1.4);
                       probability' = probability' * m
                   in if js_eq probability' (Fin 0) then Inr []
                      else ebind (generate_peak_price F given_prices predicted_prices
                                    (peak_start + 2) (Fin 1.4) (Fin 2.0))
                             (\<lambda>(m, predicted_prices).
                                let probability' = probability' * m
                                in if js_eq probability' (Fin 0) then Inr []
                                   else if peak_start + 5 < 14 then
                                     ebind (generate_decreasing_random_price F given_prices
                                              predicted_prices (peak_start + 5)
                                              (14 - (peak_start + 5))
                                              (Fin 0.4) (Fin 0.9) (Fin 0.03) (Fin 0.05))
                                       (\<lambda>(m, predicted_prices).
                                          let probability' = probability' * m
                                          in if js_eq probability' (Fin 0) then Inr []
                                             else Inr (yield_scenario 3 predicted_prices
                                                         probability'))
                                   else Inr (yield_scenario 3 predicted_prices probability'))))"

definition generate_pattern_3 :: "number \<Rightarrow> number list \<Rightarrow> error + scenario list" where
  "generate_pattern_3 F given_prices =
     ebind (emap (\<lambda>peak_start.
                    ebind (generate_pattern_3_with_peak F given_prices peak_start) (\<lambda>g.
                      Inr (multiply_generator_probability g (Fin 1 / Fin (10 - 2)))))
                  [2..9])
       (\<lambda>gs. Inr (concat gs))"

subsection \<open>The inference driver\<close>

definition to_number :: "jsval \<Rightarrow> number" where
  "to_number v = (case v of Undefined \<Rightarrow> NaN | Null \<Rightarrow> Fin 0 | Num x \<Rightarrow> x)"

definition steady_state :: "number list" where
  "steady_state = [Fin (4530 / 13082), Fin (3236 / 13082), Fin (1931 / 13082),
                   Fin (3385 / 13082)]"

text \<open>
  \<^verbatim>\<open>PROBABILITY_MATRIX[previous_pattern]\<close>: the keys of the matrix are the four
  pattern numbers; every other value finds no property and gives \<^verbatim>\<open>undefined\<close>.
\<close>

definition matrix_row :: "jsval \<Rightarrow> number list option" where
  "matrix_row v =
     (if v = Num (Fin 0) then Some (PROBABILITY_MATRIX ! 0)
      else if v = Num (Fin 1) then Some (PROBABILITY_MATRIX ! 1)
      else if v = Num (Fin 2) then Some (PROBABILITY_MATRIX ! 2)
      else if v = Num (Fin 3) then Some (PROBABILITY_MATRIX ! 3)
      else None)"

definition get_transition_probability :: "jsval \<Rightarrow> number list option" where
  "get_transition_probability previous_pattern =
     (if previous_pattern = Undefined
         \<or> previous_pattern = Num NaN
         \<or> previous_pattern = Null
         \<or> to_number previous_pattern < Fin 0
         \<or> Fin 3 < to_number previous_pattern
      then Some steady_state
      else matrix_row previous_pattern)"

text \<open>
  \<^verbatim>\<open>transition_probability[i]\<close> throws a TypeError when the lookup in the matrix
  gave \<^verbatim>\<open>undefined\<close>; this happens on the first pass of the loop, before any
  scenario is yielded.
\<close>

definition generate_all_patterns ::
  "number \<Rightarrow> number list \<Rightarrow> jsval \<Rightarrow> error + scenario list" where
  "generate_all_patterns F sell_prices previous_pattern =
     (let generate_pattern_fns =
            [generate_pattern_0, generate_pattern_1, generate_pattern_2, generate_pattern_3]
      in case get_transition_probability previous_pattern of
           None \<Rightarrow> Inl TypeError
         | Some transition_probability \<Rightarrow>
             ebind (emap (\<lambda>i. ebind ((generate_pattern_fns ! i) F sell_prices) (\<lambda>g.
                                  Inr (multiply_generator_probability g
                                         (num_at transition_probability (int i)))))
                      [0..<4])
               (\<lambda>gs. Inr (concat gs)))"

text \<open>
  \<^verbatim>\<open>temp_sell_prices[0] = temp_sell_prices[1] = buy_price\<close> on a copy of the prices;
  an array shorter than two slots is extended.
\<close>

definition set_buy_price :: "number list \<Rightarrow> int \<Rightarrow> number list" where
  "set_buy_price sell_prices buy_price =
     Fin (real_of_int buy_price) # Fin (real_of_int buy_price) # drop 2 sell_prices"

definition generate_possibilities ::
  "number \<Rightarrow> number list \<Rightarrow> bool \<Rightarrow> jsval \<Rightarrow> error + scenario list" where
  "generate_possibilities F sell_prices first_buy previous_pattern =
     (if first_buy \<or> isNaN (num_at sell_prices 0) then
        ebind (emap (\<lambda>buy_price.
                       let temp_sell_prices = set_buy_price sell_prices buy_price
                       in if first_buy then generate_pattern_3 F temp_sell_prices
                          else generate_all_patterns F temp_sell_prices previous_pattern)
                 [90..110])
          (\<lambda>gs. Inr (concat gs))
      else generate_all_patterns F sell_prices previous_pattern)"

text \<open>
  The escalation loop of \<^verbatim>\<open>analyzePossibilities\<close>. Its state is the field
  \<^verbatim>\<open>fudgeFactor\<close> and the local \<^verbatim>\<open>generated_possibilities\<close>; \<open>gen\<close> is the
  generator read at the current fudge factor.
\<close>

fun escalate ::
  "(number \<Rightarrow> error + 'a list) \<Rightarrow> nat list \<Rightarrow> number \<times> 'a list \<Rightarrow> error + number \<times> 'a list" where
  "escalate gen [] st = Inr st"
| "escalate gen (i # rest) st =
     ebind (gen (Fin (real i))) (\<lambda>generated_possibilities.
       if 0 < length generated_possibilities
       then Inr (Fin (real i), generated_possibilities)
       else escalate gen rest (Fin (real i), generated_possibilities))"

fun week_ranges ::
  "MinMax list \<Rightarrow> number list \<times> number list \<Rightarrow> number list \<times> number list" where
  "week_ranges [] acc = acc"
| "week_ranges (day # rest) (weekMins, weekMaxes) =
     (if \<not> js_eq (min_price day) (max_price day)
      then week_ranges rest (weekMins @ [min_price day], weekMaxes @ [max_price day])
      else week_ranges rest ([], []))"

text \<open>The pair \<open>(weekGuaranteedMinimum, weekMax)\<close> of one possibility.\<close>

definition week_stats :: "MinMax list \<Rightarrow> error + number \<times> number" where
  "week_stats ps =
     (let (weekMins, weekMaxes) = week_ranges (drop 2 ps) ([], [])
      in if length weekMins = 0 \<and> length weekMaxes = 0
         then ebind (pred_at ps (int (length ps) - 1)) (\<lambda>last_day.
                Inr (Math_max_list (weekMins @ [min_price last_day]),
                     Math_max_list (weekMaxes @ [max_price last_day])))
         else Inr (Math_max_list weekMins, Math_max_list weekMaxes))"

definition category_total :: "scenario list \<Rightarrow> nat \<Rightarrow> number" where
  "category_total generated_possibilities i =
     foldl (\<lambda>previous current. previous + current) (Fin 0)
       (map probability (filter (\<lambda>v. patternNumber v = i) generated_possibilities))"

text \<open>
  \<^verbatim>\<open>x || y\<close> on numbers, and the comparator of the final sort. The sort is stable;
  it is modelled by insertion from the right, which agrees with every stable sort
  when the comparator is a consistent order.
\<close>

definition js_or :: "number \<Rightarrow> number \<Rightarrow> number" where
  "js_or x y = (if x = NaN \<or> x = Fin 0 then y else x)"

definition compare_possibilities :: "PredicationResult \<Rightarrow> PredicationResult \<Rightarrow> number" where
  "compare_possibilities a b =
     js_or (categoryTotalProbability b - categoryTotalProbability a)
           (probability b - probability a)"

fun insert_by :: "('a \<Rightarrow> 'a \<Rightarrow> number) \<Rightarrow> 'a \<Rightarrow> 'a list \<Rightarrow> 'a list" where
  "insert_by cmp x [] = [x]"
| "insert_by cmp x (y # ys) =
     (if Fin 0 < cmp x y then y # insert_by cmp x ys else x # y # ys)"

definition sort_by :: "('a \<Rightarrow> 'a \<Rightarrow> number) \<Rightarrow> 'a list \<Rightarrow> 'a list" where
  "sort_by cmp xs = foldr (insert_by cmp) xs []"

fun global_day :: "int \<Rightarrow> PredicationResult list \<Rightarrow> MinMax \<Rightarrow> error + MinMax" where
  "global_day day [] acc = Inr acc"
| "global_day day (poss # rest) acc =
     ebind (pred_at (prices poss) day) (\<lambda>d.
       let acc = (if min_price d < min_price acc then acc\<lparr>min_price := min_price d\<rparr> else acc);
           acc = (if max_price acc < max_price d then acc\<lparr>max_price := max_price d\<rparr> else acc)
       in global_day day rest acc)"

text \<open>
  Everything \<^verbatim>\<open>analyzePossibilities\<close> does after the escalation loop. A category
  total is looked up by pattern number; outside \<open>0..3\<close> the lookup is
  \<^verbatim>\<open>undefined\<close>, which the comparator turns into NaN.
\<close>

definition summarize :: "scenario list \<Rightarrow> error + PredicationResult list" where
  "summarize generated_possibilities =
     (let total_probability =
            foldl (\<lambda>acc it. acc + probability it) (Fin 0) generated_possibilities;
          normalized =
            map (\<lambda>it. it\<lparr>probability := probability it / total_probability\<rparr>)
              generated_possibilities
      in ebind (emap (\<lambda>poss. ebind (week_stats (prices poss)) (\<lambda>w. Inr (poss, w))) normalized)
           (\<lambda>with_week.
              let results =
                    map (\<lambda>(poss, w).
                           \<lparr>patternNumber = patternNumber poss, patternName = patternName poss,
                            prices = prices poss, probability = probability poss,
                            weekGuaranteedMinimum = fst w, weekMax = snd w,
                            categoryTotalProbability =
                              (if patternNumber poss < 4
                               then category_total normalized (patternNumber poss)
                               else NaN)\<rparr>)
                      with_week;
                  sorted = sort_by compare_possibilities results
              in ebind (emap (\<lambda>day. global_day day sorted
                                       \<lparr>min_price = Fin 999, max_price = Fin 0\<rparr>)
                          [0..13])
                   (\<lambda>global_min_max.
                      Inr (\<lparr>patternNumber = 4, patternName = ''ALL'',
                            prices = global_min_max, probability = Fin 0,
                            weekGuaranteedMinimum =
                              Math_min_list (map weekGuaranteedMinimum sorted),
                            weekMax = Math_max_list (map weekMax sorted),
                            categoryTotalProbability = Fin 0\<rparr>
                           # sorted))))"

text \<open>
  The entry point, on the three fields the constructor stores; the field
  \<^verbatim>\<open>fudgeFactor\<close> starts at 0.
\<close>

definition analyzePossibilities ::
  "number list \<Rightarrow> bool \<Rightarrow> jsval \<Rightarrow> error + PredicationResult list" where
  "analyzePossibilities sell_prices first_buy previous_pattern =
     ebind (escalate (\<lambda>F. generate_possibilities F sell_prices first_buy previous_pattern)
              [0..<6] (Fin 0, []))
       (\<lambda>(fudgeFactor, generated_possibilities). summarize generated_possibilities)"

section \<open>Properties\<close>

subsection \<open>The probability multiplier and the transition prior\<close>

text \<open>
  C10: every item yielded by \<^verbatim>\<open>multiply_generator_probability\<close> agrees with the item
  of the inner generator at the same position on \<open>patternNumber\<close>, \<open>patternName\<close>,
  \<open>prices\<close> and on every further field, and its probability is the inner probability
  times the factor.
\<close>

theorem multiply_generator_probability_fields:
  "map patternNumber (multiply_generator_probability g p) = map patternNumber g
   \<and> map patternName (multiply_generator_probability g p) = map patternName g
   \<and> map prices (multiply_generator_probability g p) = map prices g
   \<and> map scenario.more (multiply_generator_probability g p) = map scenario.more g
   \<and> map probability (multiply_generator_probability g p) = map (\<lambda>it. probability it * p) g"
  by (simp add: multiply_generator_probability_def)

text \<open>
  C9: for a previous pattern that is \<^verbatim>\<open>undefined\<close>, NaN, \<^verbatim>\<open>null\<close>, negative or
  greater than 3, \<^verbatim>\<open>get_transition_probability\<close> returns the steady-state row
  \<open>(4530, 3236, 1931, 3385) / 13082\<close>; for 0, 1, 2 and 3 it returns that row of the
  transition matrix.
\<close>

theorem get_transition_probability_rows:
  "(pp = Undefined \<or> pp = Num NaN \<or> pp = Null \<or> (pp = Num x \<and> (x < Fin 0 \<or> Fin 3 < x))
      \<longrightarrow> get_transition_probability pp
            = Some [Fin (4530 / 13082), Fin (3236 / 13082), Fin (1931 / 13082), Fin (3385 / 13082)])
   \<and> get_transition_probability (Num (Fin 0)) = Some [Fin 0.2, Fin 0.3, Fin 0.15, Fin 0.35]
   \<and> get_transition_probability (Num (Fin 1)) = Some [Fin 0.5, Fin 0.05, Fin 0.2, Fin 0.25]
   \<and> get_transition_probability (Num (Fin 2)) = Some [Fin 0.25, Fin 0.45, Fin 0.05, Fin 0.25]
   \<and> get_transition_probability (Num (Fin 3)) = Some [Fin 0.45, Fin 0.25, Fin 0.15, Fin 0.15]"
  by (auto simp: get_transition_probability_def steady_state_def to_number_def matrix_row_def
        PROBABILITY_MATRIX_def)

theorem get_transition_probability_rows_witness:
  "get_transition_probability (Num (Fin (- 1)))
     = Some [Fin (4530 / 13082), Fin (3236 / 13082), Fin (1931 / 13082), Fin (3385 / 13082)]
   \<and> get_transition_probability (Num PInf)
     = Some [Fin (4530 / 13082), Fin (3236 / 13082), Fin (1931 / 13082), Fin (3385 / 13082)]"
  using get_transition_probability_rows [of "Num (Fin (- 1))" "Fin (- 1)"]
        get_transition_probability_rows [of "Num PInf" PInf]
  by simp

subsection \<open>The PDF\<close>

text \<open>
  C7: the constructor with \<open>uniform = false\<close>. \<^verbatim>\<open>new PDF(0, 2, false)\<close> has two
  bins, but they are empty slots, not zeros: the array is created by
  \<^verbatim>\<open>Array(2)\<close> and nothing is assigned. The difference shows as soon as the bins are
  read: their compensated sum is NaN, where the sum of two zeros is 0.
\<close>

theorem PDF_new_not_uniform_empty_slots:
  "PDF_new (Fin 0) (Fin 2) False
     = Inr \<lparr>valueStart = Fin 0, valueEnd = Fin 2, prob = [None, None]\<rparr>
   \<and> [None, None] \<noteq> [Some (Fin 0), Some (Fin 0)]
   \<and> floatSum [None, None] = NaN
   \<and> floatSum [Some (Fin 0), Some (Fin 0)] = Fin 0"
  by (simp add: PDF_new_def ebind_def minus_number_def floatSum_def neumaier_step_def
        less_eq_number_def Let_def numeral_2_eq_2)

text \<open>
  C6: when the range, clipped to \<open>[valueStart, valueEnd]\<close>, has \<open>start \<ge> end\<close>,
  \<^verbatim>\<open>range_limit\<close> returns 0 and leaves the invalid PDF: both ends 0 and no bins.
\<close>

theorem range_limit_empty_invalid:
  "Math_min (snd r) (max_value pdf) \<le> Math_max (fst r) (min_value pdf)
   \<Longrightarrow> range_limit pdf r = Inr (Fin 0, \<lparr>valueStart = Fin 0, valueEnd = Fin 0, prob = []\<rparr>)"
  by (simp add: range_limit_def)

theorem range_limit_empty_invalid_witness:
  "range_limit \<lparr>valueStart = Fin 0, valueEnd = Fin 2, prob = [Some (Fin (1 / 2)), Some (Fin (1 / 2))]\<rparr>
     (Fin 3, Fin 4) = Inr (Fin 0, \<lparr>valueStart = Fin 0, valueEnd = Fin 0, prob = []\<rparr>)"
  using range_limit_empty_invalid
    [of "(Fin 3, Fin 4)"
        "\<lparr>valueStart = Fin 0, valueEnd = Fin 2, prob = [Some (Fin (1 / 2)), Some (Fin (1 / 2))]\<rparr>"]
  by (simp add: Math_min_def Math_max_def max_value_def min_value_def less_eq_number_def)

subsection \<open>Which exceptions the generators can raise\<close>

text \<open>
  The PDF and the phase generators raise RangeError or TypeError at most (or do not
  return); the only \<^verbatim>\<open>throw new Error\<close> is the check of the phase lengths.
\<close>

lemma ebind_not_error:
  "m \<noteq> Inl e \<Longrightarrow> (\<And>x. m = Inr x \<Longrightarrow> f x \<noteq> Inl e) \<Longrightarrow> ebind m f \<noteq> Inl e"
  by (cases m) (auto simp: ebind_def)

lemma ebind_eq_Inl_iff:
  "ebind m f = Inl e \<longleftrightarrow> m = Inl e \<or> (\<exists>x. m = Inr x \<and> f x = Inl e)"
  by (cases m) (auto simp: ebind_def)

lemma emap_not_error:
  "(\<And>x. x \<in> set xs \<Longrightarrow> f x \<noteq> Inl e) \<Longrightarrow> emap f xs \<noteq> Inl e"
proof (induction xs)
  case Nil
  then show ?case by simp
next
  case (Cons x xs)
  have "f x \<noteq> Inl e" using Cons.prems by simp
  moreover have "emap f xs \<noteq> Inl e" using Cons by simp
  ultimately show ?case
    by (cases "f x"; cases "emap f xs") (auto simp: ebind_def)
qed

lemma Array_len_not_Error: "Array_len x \<noteq> Inl (Error s)"
  by (cases x) auto

lemma for_count_not_Error: "for_count a b \<noteq> Inl (Error s)"
  by (cases a; cases b) auto

lemma PDF_new_not_Error: "PDF_new a b u \<noteq> Inl (Error s)"
  unfolding PDF_new_def Let_def
  by (rule ebind_not_error) (simp_all add: Array_len_not_Error)

lemma range_limit_not_Error: "range_limit pdf r \<noteq> Inl (Error s)"
  by (simp add: range_limit_def Let_def ebind_eq_Inl_iff for_count_not_Error)

lemma prefix_get_not_Error: "prefix_get p x \<noteq> Inl (Error s)"
  by (simp add: prefix_get_def split: option.splits)

lemma decay_entry_not_Error: "decay_entry pdf p mx my k \<noteq> Inl (Error s)"
  unfolding decay_entry_def Let_def
  by (intro ebind_not_error prefix_get_not_Error) simp

lemma decay_not_Error: "decay pdf mn mx \<noteq> Inl (Error s)"
  unfolding decay_def Let_def
  by (intro ebind_not_error emap_not_error Array_len_not_Error decay_entry_not_Error) simp

lemma decreasing_loop_not_Error:
  "decreasing_loop F given dmin dmax idxs st \<noteq> Inl (Error s)"
proof (induction idxs arbitrary: st)
  case Nil
  then show ?case by (cases st) simp
next
  case (Cons i rest)
  obtain p pred pdf where st: "st = (p, pred, pdf)" by (cases st) auto
  show ?case
    unfolding st decreasing_loop.simps Let_def
    by (auto simp: ebind_eq_Inl_iff range_limit_not_Error decay_not_Error Cons.IH)
qed

lemma generate_decreasing_random_price_not_Error:
  "generate_decreasing_random_price F given pred start len a b c d \<noteq> Inl (Error s)"
  unfolding generate_decreasing_random_price_def Let_def
  by (intro ebind_not_error PDF_new_not_Error decreasing_loop_not_Error)

lemma generate_pattern_0_with_lengths_not_Error:
  assumes "2 + h1 + d1 + h2 + d2 + h3 = 14"
  shows "generate_pattern_0_with_lengths F given h1 d1 h2 d2 h3 \<noteq> Inl (Error s)"
  unfolding generate_pattern_0_with_lengths_def Let_def
  using assms
  by (auto simp: ebind_eq_Inl_iff generate_decreasing_random_price_not_Error
        split: prod.splits)

lemma pattern_0_lengths_iff:
  "(d1, h1, h3) \<in> set pattern_0_lengths
     \<longleftrightarrow> (d1 = 2 \<or> d1 = 3) \<and> 0 \<le> h1 \<and> h1 \<le> 6 \<and> 0 \<le> h3 \<and> h3 \<le> 6 - h1"
proof -
  have "set pattern_0_lengths
      = (\<Union>d\<in>{2, 3}. \<Union>h\<in>{0..6}. (\<lambda>x. (d, h, x)) ` {0..6 - h})"
    by (simp add: pattern_0_lengths_def)
  then show ?thesis
    by (simp add: image_iff) force
qed

text \<open>
  C8: \<^verbatim>\<open>generate_pattern_0\<close> enumerates exactly the triples with
  \<open>dec_phase_1_len \<in> {2, 3}\<close>, \<open>high_phase_1_len \<in> {0..6}\<close> and
  \<open>high_phase_3_len \<in> {0..6 - high_phase_1_len}\<close>; for each of them the five phase
  lengths passed on and the two buy slots add up to 14, and
  \<^verbatim>\<open>generate_pattern_0_with_lengths\<close> does not throw "Phase lengths don't add up",
  whatever the prices and the fudge factor; so \<^verbatim>\<open>generate_pattern_0\<close> never throws it.
\<close>

theorem pattern_0_phase_lengths:
  "((dec_phase_1_len, high_phase_1_len, high_phase_3_len) \<in> set pattern_0_lengths
      \<longleftrightarrow> (dec_phase_1_len = 2 \<or> dec_phase_1_len = 3)
          \<and> 0 \<le> high_phase_1_len \<and> high_phase_1_len \<le> 6
          \<and> 0 \<le> high_phase_3_len \<and> high_phase_3_len \<le> 6 - high_phase_1_len)
   \<and> ((dec_phase_1_len, high_phase_1_len, high_phase_3_len) \<in> set pattern_0_lengths
      \<longrightarrow> 2 + high_phase_1_len + dec_phase_1_len + (7 - high_phase_1_len - high_phase_3_len)
            + (5 - dec_phase_1_len) + high_phase_3_len = 14
          \<and> generate_pattern_0_with_lengths F given_prices high_phase_1_len dec_phase_1_len
              (7 - high_phase_1_len - high_phase_3_len) (5 - dec_phase_1_len) high_phase_3_len
            \<noteq> Inl (Error ''Phase lengths don't add up''))
   \<and> generate_pattern_0 F given_prices \<noteq> Inl (Error ''Phase lengths don't add up'')"
proof -
  have 3: "generate_pattern_0_with_lengths F given_prices h1 d1 (7 - h1 - h3) (5 - d1) h3
       \<noteq> Inl (Error s)" for h1 d1 h3 s
    by (rule generate_pattern_0_with_lengths_not_Error) simp
  have 4: "generate_pattern_0 F given_prices \<noteq> Inl (Error s)" for s
    unfolding generate_pattern_0_def
    by (intro ebind_not_error emap_not_error) (auto simp: ebind_eq_Inl_iff 3)
  show ?thesis using pattern_0_lengths_iff 3 4 by simp
qed

theorem pattern_0_phase_lengths_witness:
  "(3, 4, 2) \<in> set pattern_0_lengths
   \<and> generate_pattern_0_with_lengths (Fin 0) [Fin 100, Fin 100] 4 3 1 2 2
       \<noteq> Inl (Error ''Phase lengths don't add up'')"
  using pattern_0_phase_lengths [of 3 4 2 "Fin 0" "[Fin 100, Fin 100]"]
  by simp

subsection \<open>Exact summation and the uniform constructor\<close>

text \<open>
  On finite numbers the compensation term of Neumaier's summation stays 0 and the
  result is the sum. The bins of a uniform PDF on \<open>[a, b]\<close> are the lengths of
  \<open>[valueStart + i, valueStart + i + 1] \<inter> [a, b]\<close> divided by \<open>b - a\<close>; they
  telescope to 1.
\<close>

lemma neumaier_step_Fin:
  "neumaier_step (Fin x) (Fin s, Fin c) = (Fin (s + x), Fin c)"
  by (simp add: neumaier_step_def Let_def minus_number_def)

lemma fold_neumaier_Fin:
  "fold (\<lambda>x. neumaier_step (to_num x)) (map (\<lambda>x. Some (Fin x)) xs) (Fin s, Fin c)
     = (Fin (s + sum_list xs), Fin c)"
  by (induction xs arbitrary: s) (simp_all add: neumaier_step_Fin add.assoc)

lemma floatSum_Fin:
  "floatSum (map (\<lambda>x. Some (Fin x)) xs) = Fin (sum_list xs)"
  by (simp add: floatSum_def fold_neumaier_Fin)

lemma array_index_nat:
  "k < 2 ^ 32 - 1 \<Longrightarrow> array_index (Fin (real k)) = Some k"
proof -
  assume "k < 2 ^ 32 - 1"
  then have "real k < real (2 ^ 32 - 1)"
    by (simp only: of_nat_less_iff)
  then have "real k < 2 ^ 32 - 1" by simp
  then show ?thesis by simp
qed

lemma Math_max_Fin: "Math_max (Fin x) (Fin y) = Fin (max x y)"
  by (simp add: Math_max_def max_def)

lemma Math_min_Fin: "Math_min (Fin x) (Fin y) = Fin (min x y)"
  by (simp add: Math_min_def min_def)

lemma minus_Fin: "Fin x - Fin y = Fin (x - y)"
  by (simp add: minus_number_def)

lemma le_Fin: "Fin x \<le> Fin y \<longleftrightarrow> x \<le> y"
  by (auto simp: less_eq_number_def)

lemma Array_len_Inr:
  "Array_len (Fin (real_of_int k)) = Inr n \<longleftrightarrow> 0 \<le> k \<and> k < 2 ^ 32 \<and> n = nat k"
proof -
  have "real_of_int k < 2 ^ 32 \<longleftrightarrow> k < 2 ^ 32"
    by (metis of_int_less_iff of_int_numeral of_int_power)
  then show ?thesis by auto
qed

lemma uniform_bin:
  assumes "a < b" and "int i < \<lceil>b\<rceil> - \<lfloor>a\<rfloor>"
  shows "rangeIntersectLength
           (range_of \<lparr>valueStart = Fin (of_int \<lfloor>a\<rfloor>), valueEnd = ve, prob = ps\<rparr> (Fin (real i)))
           (Fin a, Fin b) / rangeLength (Some (Fin a, Fin b))
         = Fin ((min (of_int \<lfloor>a\<rfloor> + real i + 1) b - max (of_int \<lfloor>a\<rfloor> + real i) a) / (b - a))"
proof -
  have 1: "\<not> b < of_int \<lfloor>a\<rfloor> + real i"
    using assms(2) by linarith
  have 2: "\<not> of_int \<lfloor>a\<rfloor> + real i + 1 < a"
    by linarith
  show ?thesis
    using 1 2 assms(1)
    by (simp add: rangeIntersectLength_def rangeIntersect_def rangeLength_def range_of_def
          Math_max_Fin Math_min_Fin minus_Fin)
qed

lemma PDF_new_uniform:
  assumes "a < b" and "PDF_new (Fin a) (Fin b) True = Inr pdf"
  shows "pdf = \<lparr>valueStart = Fin (of_int \<lfloor>a\<rfloor>), valueEnd = Fin (of_int \<lceil>b\<rceil>),
                prob = map (\<lambda>i. Some (Fin ((min (of_int \<lfloor>a\<rfloor> + real i + 1) b
                                              - max (of_int \<lfloor>a\<rfloor> + real i) a) / (b - a))))
                         [0..<nat (\<lceil>b\<rceil> - \<lfloor>a\<rfloor>)]\<rparr>
         \<and> \<lceil>b\<rceil> - \<lfloor>a\<rfloor> < 2 ^ 32 \<and> 0 < \<lceil>b\<rceil> - \<lfloor>a\<rfloor>"
proof -
  have pos: "0 < \<lceil>b\<rceil> - \<lfloor>a\<rfloor>" using assms(1) by linarith
  have d: "Math_ceil (Fin b) - Math_floor (Fin a) = Fin (real_of_int (\<lceil>b\<rceil> - \<lfloor>a\<rfloor>))"
    by (simp add: minus_Fin)
  obtain n where n: "Array_len (Fin (real_of_int (\<lceil>b\<rceil> - \<lfloor>a\<rfloor>))) = Inr n"
    using assms(2) unfolding PDF_new_def Let_def d
    by (cases "Array_len (Fin (real_of_int (\<lceil>b\<rceil> - \<lfloor>a\<rfloor>)))") (auto simp: ebind_def)
  then have nn: "n = nat (\<lceil>b\<rceil> - \<lfloor>a\<rfloor>)" and lt: "\<lceil>b\<rceil> - \<lfloor>a\<rfloor> < 2 ^ 32"
    unfolding Array_len_Inr by auto
  have m: "map (\<lambda>i. Some (rangeIntersectLength
                  (range_of \<lparr>valueStart = Fin (of_int \<lfloor>a\<rfloor>), valueEnd = Fin (of_int \<lceil>b\<rceil>),
                             prob = replicate n None\<rparr> (Fin (real i)))
                  (Fin a, Fin b) / rangeLength (Some (Fin a, Fin b)))) [0..<n]
         = map (\<lambda>i. Some (Fin ((min (of_int \<lfloor>a\<rfloor> + real i + 1) b
                                  - max (of_int \<lfloor>a\<rfloor> + real i) a) / (b - a)))) [0..<n]"
    by (rule map_cong[OF refl]) (simp add: uniform_bin[OF assms(1)] nn)
  have "pdf = \<lparr>valueStart = Fin (of_int \<lfloor>a\<rfloor>), valueEnd = Fin (of_int \<lceil>b\<rceil>),
                prob = map (\<lambda>i. Some (Fin ((min (of_int \<lfloor>a\<rfloor> + real i + 1) b
                                              - max (of_int \<lfloor>a\<rfloor> + real i) a) / (b - a))))
                         [0..<n]\<rparr>"
    using assms(2) unfolding PDF_new_def Let_def d n
    by (simp add: ebind_def m)
  then show ?thesis using nn lt pos by simp
qed

lemma uniform_mass_telescope:
  fixes a b :: real
  assumes "a < b"
  shows "sum_list (map (\<lambda>i. (min (of_int \<lfloor>a\<rfloor> + real i + 1) b - max (of_int \<lfloor>a\<rfloor> + real i) a) / (b - a))
                    [0..<nat (\<lceil>b\<rceil> - \<lfloor>a\<rfloor>)]) = 1"
proof -
  define n where "n = nat (\<lceil>b\<rceil> - \<lfloor>a\<rfloor>)"
  define g where "g i = max a (min b (of_int \<lfloor>a\<rfloor> + real i))" for i
  have n_pos: "0 < n" using assms unfolding n_def by linarith
  have step: "min (of_int \<lfloor>a\<rfloor> + real i + 1) b - max (of_int \<lfloor>a\<rfloor> + real i) a = g (Suc i) - g i"
    if "i < n" for i
  proof -
    have "int i < \<lceil>b\<rceil> - \<lfloor>a\<rfloor>" using that unfolding n_def by linarith
    then have "of_int \<lfloor>a\<rfloor> + real i < b" by linarith
    moreover have "a < of_int \<lfloor>a\<rfloor> + real i + 1" by linarith
    ultimately show ?thesis using assms unfolding g_def max_def min_def by auto
  qed
  have "min b (of_int \<lfloor>a\<rfloor>) = of_int \<lfloor>a\<rfloor>"
    using assms by (intro min_absorb2) linarith
  moreover have "max a (of_int \<lfloor>a\<rfloor>) = a"
    by (intro max_absorb1) linarith
  ultimately have g0: "g 0 = a" unfolding g_def by simp
  have "of_int \<lfloor>a\<rfloor> + real n = of_int \<lceil>b\<rceil>"
    using n_pos unfolding n_def by simp
  moreover have "min b (of_int \<lceil>b\<rceil>) = b"
    by (intro min_absorb1) linarith
  moreover have "max a b = b"
    using assms by (intro max_absorb2) linarith
  ultimately have gn: "g n = b" unfolding g_def by simp
  have "sum_list (map (\<lambda>i. (min (of_int \<lfloor>a\<rfloor> + real i + 1) b - max (of_int \<lfloor>a\<rfloor> + real i) a) / (b - a)) [0..<n])
        = (\<Sum>i<n. (min (of_int \<lfloor>a\<rfloor> + real i + 1) b - max (of_int \<lfloor>a\<rfloor> + real i) a) / (b - a))"
    by (simp add: interv_sum_list_conv_sum_set_nat atLeast0LessThan)
  also have "\<dots> = (\<Sum>i<n. (g (Suc i) - g i) / (b - a))"
    by (rule sum.cong) (simp_all add: step)
  also have "\<dots> = (\<Sum>i<n. g (Suc i) - g i) / (b - a)"
    by (simp add: sum_divide_distrib)
  also have "\<dots> = (g n - g 0) / (b - a)"
    by (simp add: sum_lessThan_telescope)
  also have "\<dots> = 1" using assms by (simp add: g0 gn)
  finally show ?thesis unfolding n_def .
qed

lemma fold_fixed:
  "(\<And>k. k \<in> set ks \<Longrightarrow> f k P = P) \<Longrightarrow> fold f ks P = P"
  by (induction ks) simp_all

lemma arr_mul_one:
  assumes "k < length P" and "length P < 2 ^ 32" and "P ! k = Some (Fin w)"
  shows "arr_mul P (Fin (real k)) (Fin 1) = P"
proof -
  have "k < 2 ^ 32 - 1" using assms(1,2) by simp
  then have "array_index (Fin (real k)) = Some k" by (rule array_index_nat)
  then show ?thesis using assms by (simp add: arr_mul_def list_update_same_conv)
qed

lemma full_range_bin:
  assumes "int k < B - A"
  shows "rangeIntersectLength
           (range_of \<lparr>valueStart = Fin (of_int A), valueEnd = ve, prob = ps\<rparr> (Fin 0 + Fin (real k)))
           (Fin (of_int A), Fin (of_int B)) = Fin 1"
proof -
  have 1: "\<not> real_of_int B < of_int A + real k" using assms by linarith
  have 2: "min (real_of_int A + real k + 1) (of_int B) = of_int A + real k + 1"
    using assms by (intro min_absorb1) linarith
  show ?thesis
    using 1
    by (simp add: rangeIntersectLength_def rangeIntersect_def rangeLength_def range_of_def
          Math_max_Fin Math_min_Fin minus_Fin 2)
qed

lemma range_limit_full:
  assumes fin: "\<And>k. k < length P \<Longrightarrow> \<exists>w. P ! k = Some (Fin w)"
    and AB: "A < B" and len: "length P = nat (B - A)" and small: "length P < 2 ^ 32"
    and mass: "floatSum P = Fin 1"
  shows "range_limit \<lparr>valueStart = Fin (of_int A), valueEnd = Fin (of_int B), prob = P\<rparr>
           (Fin (of_int A), Fin (of_int B))
         = Inr (Fin 1, \<lparr>valueStart = Fin (of_int A), valueEnd = Fin (of_int B), prob = P\<rparr>)"
proof -
  let ?pdf = "\<lparr>valueStart = Fin (of_int A), valueEnd = Fin (of_int B), prob = P\<rparr>"
  have n: "nat \<lceil>real_of_int B - real_of_int A\<rceil> = length P"
    using len by (metis ceiling_of_int of_int_diff)
  have body: "arr_mul P (Fin 0 + Fin (real k))
                (rangeIntersectLength (range_of ?pdf (Fin 0 + Fin (real k)))
                   (Fin (of_int A), Fin (of_int B))) = P"
    if "k \<in> set [0..<length P]" for k
  proof -
    have k: "k < length P" using that by simp
    then have "int k < B - A" using len by linarith
    then have "rangeIntersectLength (range_of ?pdf (Fin 0 + Fin (real k)))
                 (Fin (of_int A), Fin (of_int B)) = Fin 1"
      by (rule full_range_bin)
    moreover obtain w where "P ! k = Some (Fin w)" using fin[OF k] by blast
    ultimately show ?thesis using arr_mul_one[OF k small] by simp
  qed
  have scaled: "fold (\<lambda>k p. let i = Fin 0 + Fin (real k)
                            in arr_mul p i (rangeIntersectLength (range_of ?pdf i)
                                 (Fin (of_int A), Fin (of_int B))))
                  [0..<length P] P = P"
    unfolding Let_def by (rule fold_fixed) (rule body)
  have scaled': "fold (\<lambda>k p. arr_mul p (Fin (real k))
                    (rangeIntersectLength (range_of ?pdf (Fin (real k)))
                       (Fin (of_int A), Fin (of_int B))))
                  [0..<nat (B - A)] P = P"
    using scaled by (simp add: Let_def len)
  have fl: "\<lfloor>real_of_int B - real_of_int A\<rfloor> = B - A"
    by (metis floor_of_int of_int_diff)
  have sl: "slice P (Fin 0) (Fin (real_of_int B - real_of_int A)) = P"
    using AB len by (simp add: slice_def Let_def fl)
  have norm: "map (\<lambda>x. Some (to_num x / Fin 1)) P = P"
  proof (rule map_idI)
    fix x assume "x \<in> set P"
    then obtain k where "k < length P" "P ! k = x" by (auto simp: in_set_conv_nth)
    then obtain w where "x = Some (Fin w)" using fin by blast
    then show "Some (to_num x / Fin 1) = x" by simp
  qed
  show ?thesis
    using AB
    by (simp add: range_limit_def min_value_def max_value_def Math_max_Fin Math_min_Fin le_Fin
          minus_Fin n ebind_def scaled' sl normalize_def mass norm Let_def len)
qed

text \<open>
  C5: on a PDF constructed with \<open>uniform = true\<close> from \<open>a < b\<close> (so that
  \<open>valueStart < valueEnd\<close>), \<^verbatim>\<open>range_limit\<close> with the full range
  \<open>[valueStart, valueEnd]\<close> returns 1 and leaves both ends and every bin as they were.
\<close>

theorem range_limit_full_range_noop:
  assumes "a < b" and "PDF_new (Fin a) (Fin b) True = Inr pdf"
  shows "range_limit pdf (valueStart pdf, valueEnd pdf) = Inr (Fin 1, pdf)"
proof -
  let ?w = "\<lambda>i. (min (of_int \<lfloor>a\<rfloor> + real i + 1) b - max (of_int \<lfloor>a\<rfloor> + real i) a) / (b - a)"
  let ?P = "map (\<lambda>i. Some (Fin (?w i))) [0..<nat (\<lceil>b\<rceil> - \<lfloor>a\<rfloor>)]"
  have pdf: "pdf = \<lparr>valueStart = Fin (of_int \<lfloor>a\<rfloor>), valueEnd = Fin (of_int \<lceil>b\<rceil>), prob = ?P\<rparr>"
    and small: "\<lceil>b\<rceil> - \<lfloor>a\<rfloor> < 2 ^ 32" and pos: "0 < \<lceil>b\<rceil> - \<lfloor>a\<rfloor>"
    using PDF_new_uniform[OF assms] by simp_all
  have "?P = map (\<lambda>x. Some (Fin x)) (map ?w [0..<nat (\<lceil>b\<rceil> - \<lfloor>a\<rfloor>)])"
    by simp
  then have "floatSum ?P = Fin (sum_list (map ?w [0..<nat (\<lceil>b\<rceil> - \<lfloor>a\<rfloor>)]))"
    by (simp only: floatSum_Fin)
  then have mass: "floatSum ?P = Fin 1"
    by (simp only: uniform_mass_telescope[OF assms(1)])
  have "range_limit \<lparr>valueStart = Fin (of_int \<lfloor>a\<rfloor>), valueEnd = Fin (of_int \<lceil>b\<rceil>), prob = ?P\<rparr>
          (Fin (of_int \<lfloor>a\<rfloor>), Fin (of_int \<lceil>b\<rceil>))
        = Inr (Fin 1, \<lparr>valueStart = Fin (of_int \<lfloor>a\<rfloor>), valueEnd = Fin (of_int \<lceil>b\<rceil>), prob = ?P\<rparr>)"
  proof (rule range_limit_full)
    show "\<lfloor>a\<rfloor> < \<lceil>b\<rceil>" using pos by simp
    show "length ?P = nat (\<lceil>b\<rceil> - \<lfloor>a\<rfloor>)" by simp
    show "length ?P < 2 ^ 32" using small by simp
    show "floatSum ?P = Fin 1" by (rule mass)
    show "\<exists>w. ?P ! k = Some (Fin w)" if "k < length ?P" for k
      using that by simp
  qed
  then show ?thesis by (simp add: pdf)
qed

lemma upt_3: "[0..<3] = [0, Suc 0, 2]"
  by (simp add: upt_rec numeral_3_eq_3 numeral_2_eq_2)

lemma PDF_new_half:
  "PDF_new (Fin (1 / 2)) (Fin (5 / 2)) True
     = Inr \<lparr>valueStart = Fin 0, valueEnd = Fin 3,
            prob = [Some (Fin (1 / 4)), Some (Fin (1 / 2)), Some (Fin (1 / 4))]\<rparr>"
  by (simp add: PDF_new_def ebind_def rangeLength_def minus_Fin rangeIntersectLength_def
        rangeIntersect_def range_of_def Math_max_Fin Math_min_Fin upt_3)

theorem range_limit_full_range_noop_witness:
  "PDF_new (Fin (1 / 2)) (Fin (5 / 2)) True
     = Inr \<lparr>valueStart = Fin 0, valueEnd = Fin 3,
            prob = [Some (Fin (1 / 4)), Some (Fin (1 / 2)), Some (Fin (1 / 4))]\<rparr>
   \<and> range_limit \<lparr>valueStart = Fin 0, valueEnd = Fin 3,
                   prob = [Some (Fin (1 / 4)), Some (Fin (1 / 2)), Some (Fin (1 / 4))]\<rparr>
        (Fin 0, Fin 3)
     = Inr (Fin 1, \<lparr>valueStart = Fin 0, valueEnd = Fin 3,
                    prob = [Some (Fin (1 / 4)), Some (Fin (1 / 2)), Some (Fin (1 / 4))]\<rparr>)"
proof -
  have "(1 / 2 :: real) < 5 / 2" by simp
  from range_limit_full_range_noop [OF this PDF_new_half] PDF_new_half
  show ?thesis by simp
qed

subsection \<open>Decay\<close>

text \<open>
  \<^verbatim>\<open>decay\<close> returns whenever the new array can be allocated: every index into the
  prefix sums is in range. Each new bin is some number divided by \<open>max_Y\<close>.
\<close>

lemma div_zero_not_finite: "\<not> is_finite (x / Fin 0)"
  by (cases x) simp_all

lemma Math_round_int: "Math_round (Fin (real_of_int k)) = Fin (real_of_int k)"
proof -
  have "\<lfloor>real_of_int k + 1 / 2\<rfloor> = k" by linarith
  then show ?thesis by simp
qed

lemma array_index_int:
  "0 \<le> j \<Longrightarrow> j < 2 ^ 32 - 1 \<Longrightarrow> array_index (Fin (real_of_int j)) = Some (nat j)"
proof -
  assume "0 \<le> j" and "j < 2 ^ 32 - 1"
  then have "real_of_int j < real_of_int (2 ^ 32 - 1)"
    by (simp only: of_int_less_iff)
  then have "real_of_int j < 2 ^ 32 - 1" by simp
  then show ?thesis using \<open>0 \<le> j\<close> by simp
qed

lemma prefix_get_int:
  "0 \<le> j \<Longrightarrow> j < int (length p) \<Longrightarrow> j < 2 ^ 32 - 1
   \<Longrightarrow> prefix_get p (Fin (real_of_int j)) = Inr (p ! nat j)"
  by (simp add: prefix_get_def arr_get_def array_index_int)

lemma length_prefix_loop: "length (prefix_loop xs sc) = length xs"
  by (induction xs arbitrary: sc) (simp_all add: Let_def)

lemma length_prefixFloatSum: "length (prefixFloatSum xs) = Suc (length xs)"
  by (simp add: prefixFloatSum_def length_prefix_loop)

lemma emap_Inr:
  "(\<And>x. x \<in> set xs \<Longrightarrow> \<exists>y. f x = Inr y \<and> Q y)
   \<Longrightarrow> \<exists>ys. emap f xs = Inr ys \<and> length ys = length xs \<and> list_all Q ys"
proof (induction xs)
  case Nil
  then show ?case by simp
next
  case (Cons x xs)
  obtain y where y: "f x = Inr y" "Q y" using Cons.prems by auto
  obtain ys where ys: "emap f xs = Inr ys" "length ys = length xs" "list_all Q ys"
    using Cons by auto
  show ?case using y ys by (simp add: ebind_def)
qed

lemma decay_entry_Inr:
  assumes "int k < int (length (prob pdf)) + y" and "length (prob pdf) < 2 ^ 32 - 1"
  shows "\<exists>x. decay_entry pdf (prefixFloatSum (prob pdf)) (Fin (real (length (prob pdf))))
               (Fin (real_of_int y)) k = Inr (Some (x / Fin (real_of_int y)))"
proof -
  let ?len = "int (length (prob pdf))"
  let ?pre = "prefixFloatSum (prob pdf)"
  have left: "Math_max (Fin 0) (Fin (real k) - Fin (real_of_int y))
                = Fin (real_of_int (max 0 (int k - y)))"
    by (simp add: minus_Fin Math_max_Fin max_def)
  have right: "Math_min (Fin (real (length (prob pdf))) - Fin 1) (Fin (real k)) + Fin 1
                = Fin (real_of_int (min (?len - 1) (int k) + 1))"
    by (simp add: minus_Fin Math_min_Fin min_def)
  have small: "?len < 2 ^ 32 - 1" using assms(2) by simp
  have l: "prefix_get ?pre (Fin (real_of_int (max 0 (int k - y))))
             = Inr (?pre ! nat (max 0 (int k - y)))"
    using assms(1) small by (intro prefix_get_int) (simp_all add: length_prefixFloatSum)
  have r: "prefix_get ?pre (Fin (real_of_int (min (?len - 1) (int k) + 1)))
             = Inr (?pre ! nat (min (?len - 1) (int k) + 1))"
    using small by (intro prefix_get_int) (simp_all add: length_prefixFloatSum)
  show ?thesis
    unfolding decay_entry_def Let_def left right l r
    by (simp add: ebind_def) blast
qed

lemma decay_Inr:
  assumes y: "Math_round mx - Math_round mn = Fin (real_of_int y)"
    and lo: "0 \<le> int (length (prob pdf)) + y" and hi: "int (length (prob pdf)) + y < 2 ^ 32"
    and small: "length (prob pdf) < 2 ^ 32 - 1"
  shows "\<exists>ps. decay pdf mn mx
               = Inr \<lparr>valueStart = valueStart pdf - Math_round mx,
                      valueEnd = valueEnd pdf - Math_round mn, prob = ps\<rparr>
             \<and> length ps = nat (int (length (prob pdf)) + y)
             \<and> list_all (\<lambda>p. \<exists>x. p = Some (x / Fin (real_of_int y))) ps"
proof -
  let ?n = "nat (int (length (prob pdf)) + y)"
  have "Fin (real (length (prob pdf))) + Fin (real_of_int y)
          = Fin (real_of_int (int (length (prob pdf)) + y))"
    by simp
  then have len: "Array_len (Fin (real (length (prob pdf))) + Fin (real_of_int y)) = Inr ?n"
    using lo hi by (simp only: Array_len_Inr)
  have "\<exists>ps. emap (decay_entry pdf (prefixFloatSum (prob pdf))
                     (Fin (real (length (prob pdf)))) (Fin (real_of_int y))) [0..<?n] = Inr ps
             \<and> length ps = length [0..<?n]
             \<and> list_all (\<lambda>p. \<exists>x. p = Some (x / Fin (real_of_int y))) ps"
  proof (rule emap_Inr)
    fix k assume "k \<in> set [0..<?n]"
    then have "int k < int (length (prob pdf)) + y" by simp
    from decay_entry_Inr[OF this small]
    show "\<exists>v. decay_entry pdf (prefixFloatSum (prob pdf)) (Fin (real (length (prob pdf))))
                 (Fin (real_of_int y)) k = Inr v \<and> (\<exists>x. v = Some (x / Fin (real_of_int y)))"
      by blast
  qed
  then obtain ps where ps:
    "emap (decay_entry pdf (prefixFloatSum (prob pdf))
             (Fin (real (length (prob pdf)))) (Fin (real_of_int y))) [0..<?n] = Inr ps"
    "length ps = ?n" "list_all (\<lambda>p. \<exists>x. p = Some (x / Fin (real_of_int y))) ps"
    by auto
  have "decay pdf mn mx
          = Inr \<lparr>valueStart = valueStart pdf - Math_round mx,
                 valueEnd = valueEnd pdf - Math_round mn, prob = ps\<rparr>"
    unfolding decay_def Let_def y len by (simp add: ebind_def ps(1))
  then show ?thesis using ps(2,3) by blast
qed

text \<open>
  C1, as the code has it: on a PDF constructed with \<open>uniform = true\<close> (with fewer than
  \<open>2^32 - 1\<close> bins) and an integer \<open>k\<close>, \<^verbatim>\<open>decay(k, k)\<close> moves both ends by
  \<open>-k\<close> and keeps the number of bins, but every bin becomes the result of a division
  by \<open>max_Y = 0\<close>, which is not a finite number.
\<close>

theorem decay_zero_width:
  assumes "PDF_new a b True = Inr pdf" and "length (prob pdf) < 2 ^ 32 - 1"
  shows "\<exists>ps. decay pdf (Fin (real_of_int k)) (Fin (real_of_int k))
               = Inr \<lparr>valueStart = valueStart pdf - Fin (real_of_int k),
                      valueEnd = valueEnd pdf - Fin (real_of_int k), prob = ps\<rparr>
             \<and> length ps = length (prob pdf)
             \<and> list_all (\<lambda>p. \<not> is_finite (to_num p)) ps"
proof -
  have y: "Math_round (Fin (real_of_int k)) - Math_round (Fin (real_of_int k)) = Fin (real_of_int 0)"
    by (simp add: Math_round_int minus_Fin)
  have hi: "int (length (prob pdf)) + 0 < 2 ^ 32" using assms(2) by simp
  obtain ps where ps:
    "decay pdf (Fin (real_of_int k)) (Fin (real_of_int k))
       = Inr \<lparr>valueStart = valueStart pdf - Math_round (Fin (real_of_int k)),
              valueEnd = valueEnd pdf - Math_round (Fin (real_of_int k)), prob = ps\<rparr>"
    "length ps = nat (int (length (prob pdf)) + 0)"
    "list_all (\<lambda>p. \<exists>x. p = Some (x / Fin (real_of_int 0))) ps"
    using decay_Inr[OF y _ hi assms(2)] by auto
  have "list_all (\<lambda>p. \<not> is_finite (to_num p)) ps"
    using ps(3) by (auto simp: list_all_iff div_zero_not_finite)
  then show ?thesis using ps(1,2) by (simp add: Math_round_int)
qed

lemma upt_2: "[0..<2] = [0, Suc 0]"
  by (simp add: upt_rec numeral_2_eq_2)

lemma PDF_new_0_2:
  "PDF_new (Fin 0) (Fin 2) True
     = Inr \<lparr>valueStart = Fin 0, valueEnd = Fin 2, prob = [Some (Fin (1 / 2)), Some (Fin (1 / 2))]\<rparr>"
  by (simp add: PDF_new_def ebind_def rangeLength_def minus_Fin rangeIntersectLength_def
        rangeIntersect_def range_of_def Math_max_Fin Math_min_Fin upt_2)

lemma decay_0_2:
  "decay \<lparr>valueStart = Fin 0, valueEnd = Fin 2, prob = [Some (Fin (1 / 2)), Some (Fin (1 / 2))]\<rparr>
      (Fin 1) (Fin 1)
     = Inr \<lparr>valueStart = Fin (- 1), valueEnd = Fin 1, prob = [Some NaN, Some NaN]\<rparr>"
  by (simp add: decay_def decay_entry_def prefixFloatSum_def neumaier_step_def floatSum_def
        prefix_get_def arr_get_def ebind_def Let_def minus_Fin Math_max_Fin Math_min_Fin
        js_eq_def le_Fin upt_2)

theorem decay_zero_width_witness:
  "\<exists>ps. decay \<lparr>valueStart = Fin 0, valueEnd = Fin 2,
                 prob = [Some (Fin (1 / 2)), Some (Fin (1 / 2))]\<rparr> (Fin 1) (Fin 1)
           = Inr \<lparr>valueStart = Fin (- 1), valueEnd = Fin 1, prob = ps\<rparr>
         \<and> length ps = Suc (Suc 0) \<and> list_all (\<lambda>p. \<not> is_finite (to_num p)) ps"
  using decay_zero_width [OF PDF_new_0_2, of 1]
  by (simp add: minus_Fin)

text \<open>
  C1 as stated fails: \<^verbatim>\<open>new PDF(0, 2)\<close> has the bins \<open>[1/2, 1/2]\<close>; after
  \<^verbatim>\<open>decay(1, 1)\<close> the ends are \<open>-1\<close> and \<open>1\<close>, and both bins are \<open>0 / 0\<close>, NaN.
\<close>

theorem decay_zero_width_counterexample:
  "PDF_new (Fin 0) (Fin 2) True
     = Inr \<lparr>valueStart = Fin 0, valueEnd = Fin 2, prob = [Some (Fin (1 / 2)), Some (Fin (1 / 2))]\<rparr>
   \<and> decay \<lparr>valueStart = Fin 0, valueEnd = Fin 2,
             prob = [Some (Fin (1 / 2)), Some (Fin (1 / 2))]\<rparr> (Fin 1) (Fin 1)
     = Inr \<lparr>valueStart = Fin (- 1), valueEnd = Fin 1, prob = [Some NaN, Some NaN]\<rparr>
   \<and> [Some NaN, Some NaN] \<noteq> [Some (Fin (1 / 2)), Some (Fin (1 / 2))]
   \<and> \<not> is_finite NaN"
  by (simp add: PDF_new_0_2 decay_0_2)

subsection \<open>Refuted patterns and the escalation loop\<close>

text \<open>
  A phase whose first slot is observed outside its envelope, widened by the fudge
  factor, returns probability 0 at once. With a buy price of 100 the envelopes of the
  first sell slot end at 140 at most, so a first sell price above \<open>140 + F\<close> refutes
  every pattern.
\<close>

lemma PDF_new_Inr:
  assumes "a < b" and "\<lceil>b\<rceil> - \<lfloor>a\<rfloor> < 2 ^ 32"
  shows "\<exists>pdf. PDF_new (Fin a) (Fin b) True = Inr pdf
               \<and> valueStart pdf = Fin (of_int \<lfloor>a\<rfloor>) \<and> valueEnd pdf = Fin (of_int \<lceil>b\<rceil>)
               \<and> length (prob pdf) = nat (\<lceil>b\<rceil> - \<lfloor>a\<rfloor>)"
proof -
  have pos: "0 \<le> \<lceil>b\<rceil> - \<lfloor>a\<rfloor>" using assms(1) by linarith
  have d: "Math_ceil (Fin b) - Math_floor (Fin a) = Fin (real_of_int (\<lceil>b\<rceil> - \<lfloor>a\<rfloor>))"
    by (simp add: minus_Fin)
  have n: "Array_len (Fin (real_of_int (\<lceil>b\<rceil> - \<lfloor>a\<rfloor>))) = Inr (nat (\<lceil>b\<rceil> - \<lfloor>a\<rfloor>))"
    using pos assms(2) by (simp only: Array_len_Inr)
  show ?thesis
    unfolding PDF_new_def Let_def d n by (simp add: ebind_def)
qed

lemma get_price_100:
  assumes "0 \<le> r"
  shows "get_price (Fin r) (Fin 100) = Fin (of_int \<lfloor>r / 100 + 0.99999\<rfloor>)"
  using assms by (simp add: get_price_def intCeil_def RATE_MULTIPLIER_def)

lemma individual_loop_refuted:
  assumes "\<not> isNaN (num_at given i)"
    and "num_at given i < get_price rmin (num_at given 0) - F
         \<or> get_price rmax (num_at given 0) + F < num_at given i"
  shows "individual_loop F given rmin rmax (i # rest) (p, pred) = (Fin 0, pred)"
  using assms by (simp add: Let_def)

lemma decreasing_loop_refuted:
  assumes "\<not> isNaN (num_at given i)"
    and "num_at given i < get_price (min_value pdf) (num_at given 0) - F
         \<or> get_price (max_value pdf) (num_at given 0) + F < num_at given i"
  shows "decreasing_loop F given dmin dmax (i # rest) (p, pred, pdf) = Inr (Fin 0, pred)"
  using assms by (simp add: Let_def)

text \<open>Prices whose first sell slot lies above every envelope of the first phase.\<close>

lemma individual_refuted_100:
  assumes "num_at given 0 = Fin 100" and "num_at given 2 = Fin x" and "140 + f < x" and "0 < len"
  shows "generate_individual_random_price (Fin f) given pred 2 len (Fin 0.9) (Fin 1.4)
           = (Fin 0, pred)"
proof -
  have idx: "[2..2 + len - 1] = 2 # [3..2 + len - 1]"
    using assms(4) by (simp add: upto_rec1)
  have "get_price (Fin 14000) (Fin 100) = Fin 140"
    by (simp add: get_price_100)
  then have "get_price (Fin 14000) (num_at given 0) + Fin f < num_at given 2"
    using assms by simp
  then show ?thesis
    unfolding generate_individual_random_price_def Let_def idx
    using assms(2)
    by (simp add: individual_loop_refuted isNaN_def RATE_MULTIPLIER_def del: individual_loop.simps)
qed

lemma decreasing_refuted_100:
  assumes "num_at given 0 = Fin 100" and "num_at given 2 = Fin x" and "140 + f < x" and "0 < len"
    and "0 \<le> a" and "a < b" and "b \<le> 9000"
  shows "generate_decreasing_random_price (Fin f) given pred 2 len
           (Fin (a / 10000)) (Fin (b / 10000)) dmin dmax = Inr (Fin 0, pred)"
proof -
  have idx: "[2..2 + len - 1] = 2 # [3..2 + len - 1]"
    using assms(4) by (simp add: upto_rec1)
  have cb: "\<lceil>b\<rceil> \<le> 9000" using assms(7) by (simp add: ceiling_le_iff)
  have fa: "0 \<le> \<lfloor>a\<rfloor>" using assms(5) by simp
  have "(2::int) ^ 32 = 4294967296" by simp
  then have "\<lceil>b\<rceil> - \<lfloor>a\<rfloor> < 2 ^ 32" using cb fa by linarith
  from PDF_new_Inr[OF assms(6) this] obtain pdf where
    pdf: "PDF_new (Fin a) (Fin b) True = Inr pdf" "valueEnd pdf = Fin (of_int \<lceil>b\<rceil>)"
    by blast
  have "0 \<le> real_of_int \<lceil>b\<rceil>" using assms(5,6) by linarith
  then have "get_price (max_value pdf) (Fin 100) = Fin (of_int \<lfloor>real_of_int \<lceil>b\<rceil> / 100 + 0.99999\<rfloor>)"
    by (simp add: max_value_def pdf(2) get_price_100)
  moreover have "real_of_int \<lfloor>real_of_int \<lceil>b\<rceil> / 100 + 0.99999\<rfloor> \<le> 90.99999"
  proof -
    have "real_of_int \<lceil>b\<rceil> \<le> 9000" using cb by linarith
    then have "real_of_int \<lceil>b\<rceil> / 100 + 0.99999 \<le> 90.99999" by simp
    then show ?thesis by linarith
  qed
  ultimately have "get_price (max_value pdf) (num_at given 0) + Fin f < num_at given 2"
    using assms(1,2,3) by simp
  then show ?thesis
    unfolding generate_decreasing_random_price_def Let_def idx
    using assms(2)
    by (simp add: decreasing_loop_refuted isNaN_def RATE_MULTIPLIER_def pdf(1) ebind_def
          del: decreasing_loop.simps)
qed

lemma js_eq_Fin: "js_eq (Fin x) (Fin y) \<longleftrightarrow> x = y"
  by (simp add: js_eq_def)

lemma individual_empty:
  "generate_individual_random_price F given pred start 0 rmin rmax = (Fin 1, pred)"
  by (simp add: generate_individual_random_price_def)

lemma decreasing_empty:
  assumes "0 \<le> a" and "a < b" and "b \<le> 9000"
  shows "generate_decreasing_random_price F given pred start 0
           (Fin (a / 10000)) (Fin (b / 10000)) dmin dmax = Inr (Fin 1, pred)"
proof -
  have cb: "\<lceil>b\<rceil> \<le> 9000" using assms(3) by (simp add: ceiling_le_iff)
  have fa: "0 \<le> \<lfloor>a\<rfloor>" using assms(1) by simp
  have "(2::int) ^ 32 = 4294967296" by simp
  then have "\<lceil>b\<rceil> - \<lfloor>a\<rfloor> < 2 ^ 32" using cb fa by linarith
  from PDF_new_Inr[OF assms(2) this] obtain pdf where
    pdf: "PDF_new (Fin a) (Fin b) True = Inr pdf" by blast
  show ?thesis
    unfolding generate_decreasing_random_price_def Let_def
    by (simp add: RATE_MULTIPLIER_def pdf ebind_def)
qed

lemma concat_emap_empty:
  "(\<And>x. x \<in> set xs \<Longrightarrow> f x = Inr []) \<Longrightarrow> ebind (emap f xs) (\<lambda>gs. Inr (concat gs)) = Inr []"
proof (induction xs)
  case Nil
  then show ?case by (simp add: ebind_def)
next
  case (Cons x xs)
  have "f x = Inr []" using Cons.prems by simp
  moreover have "ebind (emap f xs) (\<lambda>gs. Inr (concat gs)) = Inr []" using Cons by simp
  ultimately show ?case by (cases "emap f xs") (auto simp: ebind_def)
qed

lemma pattern_0_refuted:
  assumes g0: "num_at given 0 = Fin 100" and g2: "num_at given 2 = Fin x" and big: "140 + f < x"
  shows "generate_pattern_0 (Fin f) given = Inr []"
proof -
  note ind = individual_refuted_100[OF g0 g2 big, simplified]
  note dec = decreasing_refuted_100[OF g0 g2 big, where a = 6000 and b = 8000, simplified]
  have wl: "generate_pattern_0_with_lengths (Fin f) given h1 d1 h2 d2 h3 = Inr []"
    if "0 \<le> h1" and "0 < d1" for h1 d1 h2 d2 h3
  proof (cases "h1 = 0")
    case True
    show ?thesis
      unfolding generate_pattern_0_with_lengths_def Let_def True
      using that(2) by (simp add: individual_empty dec js_eq_Fin ebind_def)
  next
    case False
    then have "0 < h1" using that(1) by simp
    then show ?thesis
      unfolding generate_pattern_0_with_lengths_def Let_def
      by (simp add: ind js_eq_Fin)
  qed
  show ?thesis
    unfolding generate_pattern_0_def
  proof (rule concat_emap_empty)
    fix t assume t: "t \<in> set pattern_0_lengths"
    obtain d1 h1 h3 where [simp]: "t = (d1, h1, h3)" by (cases t) auto
    have "0 \<le> h1" "0 < d1" using t by (auto simp: pattern_0_lengths_iff)
    then show "(case t of (dec_phase_1_len, high_phase_1_len, high_phase_3_len) \<Rightarrow>
                 ebind (generate_pattern_0_with_lengths (Fin f) given high_phase_1_len
                          dec_phase_1_len (7 - high_phase_1_len - high_phase_3_len)
                          (5 - dec_phase_1_len) high_phase_3_len)
                   (\<lambda>g. Inr (multiply_generator_probability g
                           (Fin 1 / Fin (4 - 2) / Fin 7 / Fin (real_of_int (7 - high_phase_1_len))))))
               = Inr []"
      by (simp add: wl ebind_def multiply_generator_probability_def)
  qed
qed

lemma pattern_1_refuted:
  assumes g0: "num_at given 0 = Fin 100" and g2: "num_at given 2 = Fin x" and big: "140 + f < x"
  shows "generate_pattern_1 (Fin f) given = Inr []"
proof -
  note dec = decreasing_refuted_100[OF g0 g2 big, where a = 8500 and b = 9000, simplified]
  have wp: "generate_pattern_1_with_peak (Fin f) given ps = Inr []" if "3 \<le> ps" for ps
    unfolding generate_pattern_1_with_peak_def Let_def
    using that by (simp add: dec js_eq_Fin ebind_def)
  show ?thesis
    unfolding generate_pattern_1_def
    by (rule concat_emap_empty) (auto simp: wp ebind_def multiply_generator_probability_def)
qed

lemma pattern_2_refuted:
  assumes g0: "num_at given 0 = Fin 100" and g2: "num_at given 2 = Fin x" and big: "140 + f < x"
  shows "generate_pattern_2 (Fin f) given = Inr []"
proof -
  note dec = decreasing_refuted_100[OF g0 g2 big, where a = 8500 and b = 9000, simplified]
  show ?thesis
    unfolding generate_pattern_2_def Let_def
    by (simp add: dec js_eq_Fin ebind_def)
qed

lemma pattern_3_refuted:
  assumes g0: "num_at given 0 = Fin 100" and g2: "num_at given 2 = Fin x" and big: "140 + f < x"
  shows "generate_pattern_3 (Fin f) given = Inr []"
proof -
  note ind = individual_refuted_100[OF g0 g2 big, simplified]
  note dec = decreasing_refuted_100[OF g0 g2 big, where a = 4000 and b = 9000, simplified]
  note emp = decreasing_empty[where a = 4000 and b = 9000, simplified]
  have wp: "generate_pattern_3_with_peak (Fin f) given ps = Inr []" if "2 \<le> ps" for ps
  proof (cases "ps = 2")
    case True
    show ?thesis
      unfolding generate_pattern_3_with_peak_def Let_def True
      by (simp add: emp ind js_eq_Fin ebind_def)
  next
    case False
    then have "0 < ps - 2" using that by simp
    then show ?thesis
      unfolding generate_pattern_3_with_peak_def Let_def
      by (simp add: dec js_eq_Fin ebind_def)
  qed
  show ?thesis
    unfolding generate_pattern_3_def
    by (rule concat_emap_empty) (auto simp: wp ebind_def multiply_generator_probability_def)
qed

lemma upt_4: "[0..<4] = [0, Suc 0, 2, 3]"
  by (simp add: upt_rec numeral_3_eq_3 numeral_2_eq_2 eval_nat_numeral)

lemma all_patterns_refuted:
  assumes g0: "num_at given 0 = Fin 100" and g2: "num_at given 2 = Fin x" and big: "140 + f < x"
    and tp: "get_transition_probability pp = Some row"
  shows "generate_all_patterns (Fin f) given pp = Inr []"
  unfolding generate_all_patterns_def Let_def tp
  by (simp add: upt_4 ebind_def multiply_generator_probability_def
        pattern_0_refuted[OF g0 g2 big] pattern_1_refuted[OF g0 g2 big]
        pattern_2_refuted[OF g0 g2 big] pattern_3_refuted[OF g0 g2 big])

lemma possibilities_refuted:
  assumes g0: "num_at given 0 = Fin 100" and g2: "num_at given 2 = Fin x" and big: "140 + f < x"
    and tp: "get_transition_probability pp = Some row"
  shows "generate_possibilities (Fin f) given False pp = Inr []"
  unfolding generate_possibilities_def
  using g0 by (simp add: isNaN_def all_patterns_refuted[OF g0 g2 big tp])


lemma upt_6: "[0..<6] = [0, Suc 0, 2, 3, 4, 5]"
  by (simp add: upt_rec numeral_3_eq_3 numeral_2_eq_2 eval_nat_numeral)


lemma escalate_all_empty:
  "idxs \<noteq> [] \<Longrightarrow> (\<And>i. i \<in> set idxs \<Longrightarrow> gen (Fin (real i)) = Inr [])
   \<Longrightarrow> escalate gen idxs st = Inr (Fin (real (last idxs)), [])"
proof (induction idxs arbitrary: st)
  case Nil
  then show ?case by simp
next
  case (Cons i rest)
  then show ?case by (cases rest) (simp_all add: ebind_def)
qed

lemma emap_const: "emap (\<lambda>x. Inr c) xs = Inr (replicate (length xs) c)"
  by (induction xs) (simp_all add: ebind_def)

lemma summarize_empty:
  "summarize []
     = Inr [\<lparr>patternNumber = 4, patternName = ''ALL'',
             prices = replicate 14 \<lparr>min_price = Fin 999, max_price = Fin 0\<rparr>,
             probability = Fin 0, weekGuaranteedMinimum = PInf, weekMax = NInf,
             categoryTotalProbability = Fin 0\<rparr>]"
  by (simp add: summarize_def sort_by_def ebind_def Math_min_list_def Math_max_list_def
        emap_const del: upto.simps)

text \<open>
  C2 at the prices \<open>[100, 100, 999]\<close> (buy price 100, first sell price 999, the rest
  missing), no first buy, previous pattern unknown: every pattern is refuted at every
  fudge factor, the result is the ALL row alone, and its \<open>weekGuaranteedMinimum\<close> is
  \<open>+Infinity\<close> (\<^verbatim>\<open>Math.min\<close> of nothing) while its \<open>weekMax\<close> is \<open>-Infinity\<close>.
\<close>

theorem analyzePossibilities_all_refuted:
  "analyzePossibilities [Fin 100, Fin 100, Fin 999] False Undefined
     = Inr [\<lparr>patternNumber = 4, patternName = ''ALL'',
             prices = replicate 14 \<lparr>min_price = Fin 999, max_price = Fin 0\<rparr>,
             probability = Fin 0, weekGuaranteedMinimum = PInf, weekMax = NInf,
             categoryTotalProbability = Fin 0\<rparr>]
   \<and> \<not> PInf \<le> NInf"
proof -
  have tp: "get_transition_probability Undefined = Some steady_state"
    by (simp add: get_transition_probability_def)
  have gen: "generate_possibilities (Fin (real i)) [Fin 100, Fin 100, Fin 999] False Undefined
               = Inr []" if "i \<in> set [0..<6]" for i
  proof (rule possibilities_refuted[OF _ _ _ tp])
    show "num_at [Fin 100, Fin 100, Fin 999] 0 = Fin 100" by (simp add: num_at_def)
    show "num_at [Fin 100, Fin 100, Fin 999] 2 = Fin 999" by (simp add: num_at_def)
    show "140 + real i < 999" using that by simp
  qed
  have "escalate (\<lambda>F. generate_possibilities F [Fin 100, Fin 100, Fin 999] False Undefined)
          [0..<6] (Fin 0, []) = Inr (Fin (real (last [0..<6])), [])"
    by (rule escalate_all_empty) (simp_all add: gen)
  then show ?thesis
    by (simp add: analyzePossibilities_def ebind_def summarize_empty less_eq_number_def)
qed

subsection \<open>Phases without observations\<close>

text \<open>
  With no observation in its slots a phase returns probability 1 and appends one
  envelope per slot; the decreasing phase needs its PDF to stay below the array size
  limit, which the rates and lengths of the four patterns guarantee.
\<close>

lemma individual_loop_missing:
  "(\<And>i. i \<in> set idxs \<Longrightarrow> isNaN (num_at given i))
   \<Longrightarrow> \<exists>pred'. individual_loop F given rmin rmax idxs (p, pred) = (p, pred @ pred')
               \<and> length pred' = length idxs"
proof (induction idxs arbitrary: pred)
  case Nil
  then show ?case by simp
next
  case (Cons i rest)
  let ?e = "\<lparr>min_price = get_price rmin (num_at given 0),
               max_price = get_price rmax (num_at given 0)\<rparr>"
  obtain pred' where p: "individual_loop F given rmin rmax rest (p, pred @ [?e])
                           = (p, (pred @ [?e]) @ pred')" "length pred' = length rest"
    using Cons.IH[of "pred @ [?e]"] Cons.prems by auto
  have "isNaN (num_at given i)" using Cons.prems by simp
  then have "individual_loop F given rmin rmax (i # rest) (p, pred) = (p, pred @ (?e # pred'))"
    using p(1) by (simp add: Let_def)
  then show ?case using p(2) by (intro exI[of _ "?e # pred'"]) simp
qed

lemma individual_missing:
  assumes "\<And>i. start \<le> i \<Longrightarrow> i < start + len \<Longrightarrow> isNaN (num_at given i)"
  shows "\<exists>pred'. generate_individual_random_price F given pred start len rmin rmax
                  = (Fin 1, pred @ pred') \<and> length pred' = nat len"
proof -
  have "\<exists>pred'. individual_loop F given (rmin * RATE_MULTIPLIER) (rmax * RATE_MULTIPLIER)
                  [start..start + len - 1] (Fin 1, pred) = (Fin 1, pred @ pred')
               \<and> length pred' = length [start..start + len - 1]"
    by (rule individual_loop_missing) (use assms in auto)
  then show ?thesis
    by (simp add: generate_individual_random_price_def Let_def)
qed

lemma decreasing_loop_missing:
  assumes y: "Math_round dmax - Math_round dmin = Fin (real_of_int y)" and y0: "0 \<le> y"
  shows "(\<And>i. i \<in> set idxs \<Longrightarrow> isNaN (num_at given i))
   \<Longrightarrow> int (length (prob pdf)) + int (length idxs) * y < 2 ^ 32 - 1
   \<Longrightarrow> \<exists>pred'. decreasing_loop F given dmin dmax idxs (p, pred, pdf) = Inr (p, pred @ pred')
               \<and> length pred' = length idxs"
proof (induction idxs arbitrary: pred pdf)
  case Nil
  then show ?case by simp
next
  case (Cons i rest)
  let ?e = "\<lparr>min_price = get_price (min_value pdf) (num_at given 0),
               max_price = get_price (max_value pdf) (num_at given 0)\<rparr>"
  have le: "int (length rest) * y \<ge> 0" using y0 by simp
  have b1: "int (length (prob pdf)) + y < 2 ^ 32 - 1"
  proof -
    have "int (length (i # rest)) * y = y + int (length rest) * y"
      by (simp add: algebra_simps)
    then show ?thesis using Cons.prems(2) le by linarith
  qed
  have b2: "length (prob pdf) < 2 ^ 32 - 1"
  proof -
    have e: "int (2 ^ 32 - 1) = 2 ^ 32 - 1" by simp
    have "int (length (prob pdf)) < 2 ^ 32 - 1" using b1 y0 by linarith
    then have "int (length (prob pdf)) < int (2 ^ 32 - 1)" using e by linarith
    then show ?thesis by (simp only: of_nat_less_iff)
  qed
  have "0 \<le> int (length (prob pdf)) + y" using y0 by simp
  moreover have "int (length (prob pdf)) + y < 2 ^ 32" using b1 by linarith
  ultimately obtain ps where ps:
    "decay pdf dmin dmax
       = Inr \<lparr>valueStart = valueStart pdf - Math_round dmax,
              valueEnd = valueEnd pdf - Math_round dmin, prob = ps\<rparr>"
    "length ps = nat (int (length (prob pdf)) + y)"
    using decay_Inr[OF y _ _ b2] by blast
  let ?pdf' = "\<lparr>valueStart = valueStart pdf - Math_round dmax,
                 valueEnd = valueEnd pdf - Math_round dmin, prob = ps\<rparr>"
  have "int (length (prob ?pdf')) + int (length rest) * y < 2 ^ 32 - 1"
    using Cons.prems(2) y0 ps(2) by (simp add: algebra_simps)
  then obtain pred' where p:
    "decreasing_loop F given dmin dmax rest (p, pred @ [?e], ?pdf') = Inr (p, (pred @ [?e]) @ pred')"
    "length pred' = length rest"
    using Cons.IH[of ?pdf' "pred @ [?e]"] Cons.prems(1) by auto
  have "isNaN (num_at given i)" using Cons.prems by simp
  then have "decreasing_loop F given dmin dmax (i # rest) (p, pred, pdf)
               = Inr (p, pred @ (?e # pred'))"
    using p(1) ps(1) by (simp add: Let_def ebind_def)
  then show ?case using p(2) by (intro exI[of _ "?e # pred'"]) simp
qed

lemma decreasing_missing:
  assumes miss: "\<And>i. start \<le> i \<Longrightarrow> i < start + len \<Longrightarrow> isNaN (num_at given i)"
    and a: "0 \<le> a" "a < b" "b \<le> 9000" and c: "0 \<le> c" "c \<le> d" "d \<le> 1000" and len: "len \<le> 12"
  shows "\<exists>pred'. generate_decreasing_random_price F given pred start len
                  (Fin (a / 10000)) (Fin (b / 10000)) (Fin (c / 10000)) (Fin (d / 10000))
                  = Inr (Fin 1, pred @ pred') \<and> length pred' = nat len"
proof -
  have cb: "\<lceil>b\<rceil> \<le> 9000" using a(3) by (simp add: ceiling_le_iff)
  have fa: "0 \<le> \<lfloor>a\<rfloor>" using a(1) by simp
  have p32: "(2::int) ^ 32 = 4294967296" by simp
  have "\<lceil>b\<rceil> - \<lfloor>a\<rfloor> < 2 ^ 32" using cb fa p32 by linarith
  from PDF_new_Inr[OF a(2) this] obtain pdf where
    pdf: "PDF_new (Fin a) (Fin b) True = Inr pdf" "length (prob pdf) = nat (\<lceil>b\<rceil> - \<lfloor>a\<rfloor>)"
    by blast
  define y where "y = \<lfloor>d + 1 / 2\<rfloor> - \<lfloor>c + 1 / 2\<rfloor>"
  have y: "Math_round (Fin d) - Math_round (Fin c) = Fin (real_of_int y)"
    unfolding y_def by (simp add: minus_Fin)
  have y0: "0 \<le> y" unfolding y_def using c(2) by (simp add: floor_mono)
  have "\<lfloor>d + 1 / 2\<rfloor> \<le> 1000" using c(3) by (simp add: floor_le_iff)
  moreover have "0 \<le> \<lfloor>c + 1 / 2\<rfloor>" using c(1) by simp
  ultimately have y1: "y \<le> 1000" unfolding y_def by linarith
  let ?idxs = "[start..start + len - 1]"
  have l12: "int (length ?idxs) \<le> 12" using len by simp
  have "int (length ?idxs) * y \<le> 12 * 1000"
    using l12 y1 y0 by (intro mult_mono) simp_all
  moreover have "int (length (prob pdf)) \<le> 9000" using pdf(2) cb fa by linarith
  ultimately have bound: "int (length (prob pdf)) + int (length ?idxs) * y < 2 ^ 32 - 1"
    using p32 by linarith
  have "\<exists>pred'. decreasing_loop F given (Fin c) (Fin d) ?idxs (Fin 1, pred, pdf)
                  = Inr (Fin 1, pred @ pred') \<and> length pred' = length ?idxs"
    by (rule decreasing_loop_missing[OF y y0 _ bound]) (use miss in auto)
  then show ?thesis
    unfolding generate_decreasing_random_price_def Let_def
    by (simp add: RATE_MULTIPLIER_def pdf(1) ebind_def)
qed

lemma peak_missing:
  assumes m0: "isNaN (num_at given start)" and m1: "isNaN (num_at given (start + 1))"
    and m2: "isNaN (num_at given (start + 2))" and len: "int (length pred) = start"
  shows "\<exists>s1 s2 s3. generate_peak_price F given pred start rmin rmax
                       = Inr (Fin 1, pred @ [s1, s2, s3])"
proof -
  have s: "0 \<le> start" using len by linarith
  have at0: "pred_at (pred @ [x]) start = Inr x" for x
    using len by (simp add: pred_at_def nth_append)
  have at1: "pred_at (pred @ [x, z]) (start + 1) = Inr z" for x z
  proof -
    have "nat (start + 1) = Suc (length pred)" using len by linarith
    then show ?thesis using len by (simp add: pred_at_def nth_append)
  qed
  show ?thesis
    unfolding generate_peak_price_def Let_def
    using m0 m1 m2
    by (simp add: peak_middle_def isNaN_def ebind_def at0 at1)
qed

lemma length_buy_slots: "length (buy_slots given) = 2"
  by (simp add: buy_slots_def Let_def)

lemma pattern_3_with_peak_missing:
  assumes miss: "\<And>i. 2 \<le> i \<Longrightarrow> isNaN (num_at given i)" and ps: "2 \<le> ps" "ps \<le> 9"
  shows "\<exists>sc. generate_pattern_3_with_peak F given ps = Inr [sc]
              \<and> patternNumber sc = 3 \<and> length (prices sc) = 14"
proof -
  have "\<exists>pred'. generate_decreasing_random_price F given (buy_slots given) 2 (ps - 2)
                   (Fin 0.4) (Fin 0.9) (Fin 0.03) (Fin 0.05)
                 = Inr (Fin 1, buy_slots given @ pred') \<and> length pred' = nat (ps - 2)"
    using decreasing_missing[of 2 "ps - 2" given 4000 9000 300 500 F "buy_slots given"] miss ps
    by simp
  then obtain p1 where d1:
    "generate_decreasing_random_price F given (buy_slots given) 2 (ps - 2)
       (Fin 0.4) (Fin 0.9) (Fin 0.03) (Fin 0.05) = Inr (Fin 1, buy_slots given @ p1)"
    and l1: "length p1 = nat (ps - 2)" by blast
  obtain p2 where i2:
    "generate_individual_random_price F given (buy_slots given @ p1) ps 2 (Fin 0.9) (Fin 1.4)
       = (Fin 1, (buy_slots given @ p1) @ p2)"
    and l2: "length p2 = nat 2"
    using individual_missing[of ps 2 given F "buy_slots given @ p1" "Fin 0.9" "Fin 1.4"] miss ps
    by auto
  have "int (length ((buy_slots given @ p1) @ p2)) = ps + 2"
    using l1 l2 ps by (simp add: length_buy_slots)
  then obtain s1 s2 s3 where pk:
    "generate_peak_price F given ((buy_slots given @ p1) @ p2) (ps + 2) (Fin 1.4) (Fin 2.0)
       = Inr (Fin 1, ((buy_slots given @ p1) @ p2) @ [s1, s2, s3])"
    using peak_missing[of given "ps + 2" "(buy_slots given @ p1) @ p2" F "Fin 1.4" "Fin 2.0"]
      miss ps by auto
  let ?pred3 = "((buy_slots given @ p1) @ p2) @ [s1, s2, s3]"
  have "\<exists>pred'. generate_decreasing_random_price F given ?pred3 (ps + 5) (14 - (ps + 5))
                   (Fin 0.4) (Fin 0.9) (Fin 0.03) (Fin 0.05)
                 = Inr (Fin 1, ?pred3 @ pred') \<and> length pred' = nat (14 - (ps + 5))"
    using decreasing_missing[of "ps + 5" "14 - (ps + 5)" given 4000 9000 300 500 F ?pred3] miss ps
    by simp
  then obtain p4 where d4:
    "generate_decreasing_random_price F given ?pred3 (ps + 5) (14 - (ps + 5))
       (Fin 0.4) (Fin 0.9) (Fin 0.03) (Fin 0.05) = Inr (Fin 1, ?pred3 @ p4)"
    and l4: "length p4 = nat (14 - (ps + 5))" by blast
  have len: "length (?pred3 @ p4) = 14" "ps + 5 < 14 \<or> length ?pred3 = 14"
    using l1 l2 l4 ps by (auto simp: length_buy_slots)
  show ?thesis
    unfolding generate_pattern_3_with_peak_def Let_def
    using len
    by (auto simp: d1[simplified] i2[simplified] pk[simplified] d4[simplified]
          ebind_def js_eq_Fin yield_scenario_def)
qed

subsection \<open>The first buy\<close>

text \<open>
  Pattern numbers are fixed when a scenario is yielded and survive the multiplication
  of probabilities, the normalisation and the sort.
\<close>

lemma emap_list_all:
  "emap f xs = Inr ys \<Longrightarrow> (\<And>x y. x \<in> set xs \<Longrightarrow> f x = Inr y \<Longrightarrow> Q y) \<Longrightarrow> list_all Q ys"
proof (induction xs arbitrary: ys)
  case Nil
  then show ?case by simp
next
  case (Cons x xs)
  obtain y where y: "f x = Inr y" using Cons.prems(1) by (cases "f x") (auto simp: ebind_def)
  obtain ys' where ys': "emap f xs = Inr ys'"
    using Cons.prems(1) y by (cases "emap f xs") (auto simp: ebind_def)
  have "ys = y # ys'" using Cons.prems(1) y ys' by (simp add: ebind_def)
  moreover have "Q y" by (rule Cons.prems(2)[of x]) (simp_all add: y)
  moreover have "list_all Q ys'" by (rule Cons.IH[OF ys']) (rule Cons.prems(2), simp_all)
  ultimately show ?case by simp
qed

lemma pattern_3_with_peak_number:
  assumes "generate_pattern_3_with_peak F given ps = Inr g"
  shows "list_all (\<lambda>sc. patternNumber sc = 3) g"
  using assms
  unfolding generate_pattern_3_with_peak_def Let_def
  by (auto simp: ebind_def yield_scenario_def split: sum.splits prod.splits if_splits)

lemma pattern_3_number:
  assumes "generate_pattern_3 F given = Inr g"
  shows "list_all (\<lambda>sc. patternNumber sc = 3) g"
proof -
  let ?f = "\<lambda>peak_start. ebind (generate_pattern_3_with_peak F given peak_start)
              (\<lambda>g. Inr (multiply_generator_probability g (Fin 1 / Fin (10 - 2))))"
  obtain gs where gs: "emap ?f [2..9] = Inr gs" and g: "g = concat gs"
    using assms unfolding generate_pattern_3_def
    by (cases "emap ?f [2..9]") (auto simp: ebind_def)
  have "list_all (list_all (\<lambda>sc. patternNumber sc = 3)) gs"
  proof (rule emap_list_all[OF gs])
    fix x y assume "?f x = Inr y"
    then obtain g0 where g0: "generate_pattern_3_with_peak F given x = Inr g0"
      and y: "y = multiply_generator_probability g0 (Fin 1 / Fin (10 - 2))"
      by (cases "generate_pattern_3_with_peak F given x") (auto simp: ebind_def)
    show "list_all (\<lambda>sc. patternNumber sc = 3) y"
      using pattern_3_with_peak_number[OF g0]
      by (simp add: y multiply_generator_probability_def list_all_iff)
  qed
  then show ?thesis by (auto simp: g list_all_iff)
qed

lemma first_buy_number:
  assumes "generate_possibilities F sell_prices True pp = Inr g"
  shows "list_all (\<lambda>sc. patternNumber sc = 3) g"
proof -
  let ?f = "\<lambda>buy_price. generate_pattern_3 F (set_buy_price sell_prices buy_price)"
  obtain gs where gs: "emap ?f [90..110] = Inr gs" and g: "g = concat gs"
    using assms unfolding generate_possibilities_def
    by (cases "emap ?f [90..110]") (auto simp: ebind_def Let_def)
  have "list_all (list_all (\<lambda>sc. patternNumber sc = 3)) gs"
    by (rule emap_list_all[OF gs]) (rule pattern_3_number)
  then show ?thesis by (auto simp: g list_all_iff)
qed

lemma set_insert_by: "set (insert_by cmp x ys) = insert x (set ys)"
  by (induction ys) auto

lemma set_sort_by: "set (sort_by cmp xs) = set xs"
  unfolding sort_by_def by (induction xs) (simp_all add: set_insert_by)

lemma length_insert_by: "length (insert_by cmp x ys) = Suc (length ys)"
  by (induction ys) auto

lemma length_sort_by: "length (sort_by cmp xs) = length xs"
  unfolding sort_by_def by (induction xs) (simp_all add: length_insert_by)

lemma emap_pair_fst:
  "emap (\<lambda>x. ebind (g x) (\<lambda>w. Inr (x, w))) xs = Inr ys \<Longrightarrow> map fst ys = xs"
proof (induction xs arbitrary: ys)
  case Nil
  then show ?case by simp
next
  case (Cons x xs)
  let ?f = "\<lambda>x. ebind (g x) (\<lambda>w. Inr (x, w))"
  obtain y where y: "?f x = Inr y" using Cons.prems(1) by (cases "?f x") (auto simp: ebind_def)
  obtain ys' where ys': "emap ?f xs = Inr ys'"
    using Cons.prems(1) y by (cases "emap ?f xs") (auto simp: ebind_def)
  have "ys = y # ys'" using Cons.prems(1) y ys' by (simp add: ebind_def)
  moreover have "fst y = x" using y by (cases "g x") (auto simp: ebind_def)
  ultimately show ?case using Cons.IH[OF ys'] by simp
qed

lemma summarize_numbers:
  assumes "summarize gp = Inr rs"
  shows "rs \<noteq> [] \<and> patternNumber (hd rs) = 4 \<and> length rs = Suc (length gp)
         \<and> set (map patternNumber (tl rs)) = set (map patternNumber gp)"
proof -
  define total where "total = foldl (\<lambda>acc it. acc + probability it) (Fin 0) gp"
  define norm where "norm = map (\<lambda>it. it\<lparr>probability := probability it / total\<rparr>) gp"
  let ?f = "\<lambda>poss. ebind (week_stats (prices poss)) (\<lambda>w. Inr (poss, w))"
  obtain ww where ww: "emap ?f norm = Inr ww"
    using assms unfolding summarize_def Let_def norm_def total_def
    by (cases "emap ?f (map (\<lambda>it. it\<lparr>probability := probability it
              / foldl (\<lambda>acc it. acc + probability it) (Fin 0) gp\<rparr>) gp)")
       (auto simp: ebind_def)
  define results where "results = map (\<lambda>(poss, w).
                           \<lparr>patternNumber = patternNumber poss, patternName = patternName poss,
                            prices = prices poss, probability = probability poss,
                            weekGuaranteedMinimum = fst w, weekMax = snd w,
                            categoryTotalProbability =
                              (if patternNumber poss < 4
                               then category_total norm (patternNumber poss)
                               else NaN)\<rparr>) ww"
  define sorted where "sorted = sort_by compare_possibilities results"
  have tl: "rs \<noteq> [] \<and> patternNumber (hd rs) = 4 \<and> tl rs = sorted"
    using assms ww
    unfolding summarize_def Let_def sorted_def results_def norm_def total_def
    by (auto simp: ebind_def split: sum.splits)
  have fst: "map fst ww = norm" by (rule emap_pair_fst[OF ww])
  have "map patternNumber results = map (\<lambda>p. patternNumber (fst p)) ww"
    unfolding results_def by (simp add: case_prod_beta)
  also have "\<dots> = map patternNumber (map fst ww)" by simp
  also have "\<dots> = map patternNumber gp" unfolding fst norm_def by simp
  finally have pn: "map patternNumber results = map patternNumber gp" .
  have "set (map patternNumber sorted) = set (map patternNumber results)"
    unfolding sorted_def by (simp only: set_map set_sort_by)
  then have 1: "set (map patternNumber (tl rs)) = set (map patternNumber gp)"
    using tl pn by simp
  have "length results = length gp"
    using arg_cong[OF pn, of length] by simp
  then have "length sorted = length gp"
    unfolding sorted_def by (simp add: length_sort_by)
  then have "length (tl rs) = length gp" using tl by simp
  then have 2: "length rs = Suc (length gp)" using tl by (cases rs) auto
  show ?thesis using tl 1 2 by simp
qed

lemma escalate_result:
  "escalate gen idxs st = Inr (F, g)
   \<Longrightarrow> g = snd st \<or> (\<exists>i\<in>set idxs. gen (Fin (real i)) = Inr g)"
proof (induction idxs arbitrary: st)
  case Nil
  then show ?case by (cases st) auto
next
  case (Cons i rest)
  obtain g0 where g0: "gen (Fin (real i)) = Inr g0"
    using Cons.prems by (cases "gen (Fin (real i))") (auto simp: ebind_def)
  show ?case
  proof (cases "0 < length g0")
    case True
    then have "g = g0" using Cons.prems g0 by (simp add: ebind_def)
    then show ?thesis using g0 by simp
  next
    case False
    then have "escalate gen rest (Fin (real i), g0) = Inr (F, g)"
      using Cons.prems g0 by (simp add: ebind_def)
    from Cons.IH[OF this] show ?thesis using g0 by auto
  qed
qed

text \<open>
  The buy price written to slots 0 and 1 is the one the pattern generators read, and
  every phase of a pattern only appends to the predicted prices: the first two prices
  of a scenario of pattern 3 are the two buy slots.
\<close>

lemma num_at_set_buy_price:
  "2 \<le> i \<Longrightarrow> num_at (set_buy_price sp b) i = num_at sp i"
proof -
  assume i: "2 \<le> i"
  then have n: "nat i = Suc (Suc (nat (i - 2)))" by linarith
  show ?thesis
  proof (cases "i < int (length sp)")
    case True
    then have "nat (i - 2) < length sp - 2" using i by linarith
    moreover have "2 + nat (i - 2) = nat i" using i by linarith
    ultimately show ?thesis
      using True i unfolding num_at_def set_buy_price_def by (simp add: n)
  next
    case False
    then show ?thesis
      using i unfolding num_at_def set_buy_price_def by auto
  qed
qed

lemma individual_loop_prefix:
  "individual_loop F given rmin rmax idxs (p, pred) = (m, pred') \<Longrightarrow> \<exists>ext. pred' = pred @ ext"
proof (induction idxs arbitrary: p pred)
  case Nil
  then show ?case by simp
next
  case (Cons i rest)
  show ?case
  proof (cases "individual_loop F given rmin rmax (i # rest) (p, pred) = (Fin 0, pred)")
    case True
    then show ?thesis using Cons.prems by simp
  next
    case False
    then obtain q e where "individual_loop F given rmin rmax rest (q, pred @ [e]) = (m, pred')"
      using Cons.prems by (auto simp: Let_def split: if_splits)
    from Cons.IH[OF this] show ?thesis by auto
  qed
qed

lemma individual_prefix:
  "generate_individual_random_price F given pred start len rmin rmax = (m, pred')
   \<Longrightarrow> \<exists>ext. pred' = pred @ ext"
  unfolding generate_individual_random_price_def Let_def by (rule individual_loop_prefix)

lemma decreasing_loop_prefix:
  "decreasing_loop F given dmin dmax idxs (p, pred, pdf) = Inr (m, pred')
   \<Longrightarrow> \<exists>ext. pred' = pred @ ext"
proof (induction idxs arbitrary: p pred pdf)
  case Nil
  then show ?case by simp
next
  case (Cons i rest)
  show ?case
  proof (cases "decreasing_loop F given dmin dmax (i # rest) (p, pred, pdf) = Inr (Fin 0, pred)")
    case True
    then show ?thesis using Cons.prems by simp
  next
    case False
    then obtain q e pdf' where
      "decreasing_loop F given dmin dmax rest (q, pred @ [e], pdf') = Inr (m, pred')"
      using Cons.prems
      by (auto simp: Let_def ebind_def split: if_splits sum.splits prod.splits)
    from Cons.IH[OF this] show ?thesis by auto
  qed
qed

lemma decreasing_prefix:
  "generate_decreasing_random_price F given pred start len a b c d = Inr (m, pred')
   \<Longrightarrow> \<exists>ext. pred' = pred @ ext"
  unfolding generate_decreasing_random_price_def Let_def
  by (auto simp: ebind_def split: sum.splits dest: decreasing_loop_prefix)

lemma peak_prefix:
  "generate_peak_price F given pred start rmin rmax = Inr (m, pred')
   \<Longrightarrow> \<exists>ext. pred' = pred @ ext"
  unfolding generate_peak_price_def Let_def
  by (auto simp: ebind_def split: sum.splits option.splits prod.splits if_splits)


lemma num_at_set_buy_price_0:
  "num_at (set_buy_price sp b) 0 = Fin (real_of_int b)"
  "num_at (set_buy_price sp b) 1 = Fin (real_of_int b)"
  by (simp_all add: num_at_def set_buy_price_def)

lemma buy_slots_set_buy_price:
  "buy_slots (set_buy_price sp b)
     = [\<lparr>min_price = Fin (real_of_int b), max_price = Fin (real_of_int b)\<rparr>,
        \<lparr>min_price = Fin (real_of_int b), max_price = Fin (real_of_int b)\<rparr>]"
  by (simp add: buy_slots_def Let_def num_at_set_buy_price_0)

lemma pattern_3_with_peak_prices:
  assumes "generate_pattern_3_with_peak F given ps = Inr g"
  shows "list_all (\<lambda>sc. take 2 (prices sc) = buy_slots given) g"
proof -
  have t: "take 2 (buy_slots given @ ext) = buy_slots given" for ext
    by (simp add: buy_slots_def Let_def)
  show ?thesis
  proof (cases "generate_decreasing_random_price F given (buy_slots given)
                  2 (ps - 2) (Fin 0.4) (Fin 0.9) (Fin 0.03) (Fin 0.05)")
    case (Inl e)
    then show ?thesis
      using assms unfolding generate_pattern_3_with_peak_def Let_def by (simp add: ebind_def)
  next
    case (Inr r1)
    obtain m1 p1 where r1: "r1 = (m1, p1)" by (cases r1)
    obtain e1 where e1: "p1 = buy_slots given @ e1"
      using decreasing_prefix[OF Inr[unfolded r1]] by blast
    obtain m2 p2 where i2: "generate_individual_random_price F given p1 ps 2 (Fin 0.9) (Fin 1.4)
                              = (m2, p2)"
      by (cases "generate_individual_random_price F given p1 ps 2 (Fin 0.9) (Fin 1.4)")
    obtain e2 where e2: "p2 = p1 @ e2" using individual_prefix[OF i2] by blast
    show ?thesis
    proof (cases "generate_peak_price F given p2 (ps + 2) (Fin 1.4) (Fin 2.0)")
      case (Inl e)
      then show ?thesis
        using assms unfolding generate_pattern_3_with_peak_def Let_def
        by (auto simp: ebind_def Inr[simplified] r1 i2[simplified] split: if_splits)
    next
      case r3: (Inr r3)
      obtain m3 p3 where r3': "r3 = (m3, p3)" by (cases r3)
      obtain e3 where e3: "p3 = p2 @ e3" using peak_prefix[OF r3[unfolded r3']] by blast
      have p3: "take 2 p3 = buy_slots given" using t[of "e1 @ e2 @ e3"] by (simp add: e1 e2 e3)
      show ?thesis
      proof (cases "generate_decreasing_random_price F given p3 (ps + 5) (14 - (ps + 5))
                      (Fin 0.4) (Fin 0.9) (Fin 0.03) (Fin 0.05)")
        case (Inl e)
        then show ?thesis
          using assms p3 unfolding generate_pattern_3_with_peak_def Let_def
          by (auto simp: ebind_def Inr[simplified] r1 i2[simplified] r3[simplified] r3'
                yield_scenario_def split: if_splits)
      next
        case r4: (Inr r4)
        obtain m4 p4 where r4': "r4 = (m4, p4)" by (cases r4)
        obtain e4 where e4: "p4 = p3 @ e4" using decreasing_prefix[OF r4[unfolded r4']] by blast
        have p4: "take 2 p4 = buy_slots given"
          using t[of "e1 @ e2 @ e3 @ e4"] by (simp add: e1 e2 e3 e4)
        show ?thesis
          using assms p3 p4 unfolding generate_pattern_3_with_peak_def Let_def
          by (auto simp: ebind_def Inr[simplified] r1 i2[simplified] r3[simplified] r3'
                r4[simplified] r4' yield_scenario_def split: if_splits)
      qed
    qed
  qed
qed

lemma pattern_3_prices:
  assumes "generate_pattern_3 F given = Inr g"
  shows "list_all (\<lambda>sc. take 2 (prices sc) = buy_slots given) g"
proof -
  let ?f = "\<lambda>peak_start. ebind (generate_pattern_3_with_peak F given peak_start)
              (\<lambda>g. Inr (multiply_generator_probability g (Fin 1 / Fin (10 - 2))))"
  obtain gs where gs: "emap ?f [2..9] = Inr gs" and g: "g = concat gs"
    using assms unfolding generate_pattern_3_def
    by (cases "emap ?f [2..9]") (auto simp: ebind_def)
  have "list_all (list_all (\<lambda>sc. take 2 (prices sc) = buy_slots given)) gs"
  proof (rule emap_list_all[OF gs])
    fix x y assume "?f x = Inr y"
    then obtain g0 where g0: "generate_pattern_3_with_peak F given x = Inr g0"
      and y: "y = multiply_generator_probability g0 (Fin 1 / Fin (10 - 2))"
      by (cases "generate_pattern_3_with_peak F given x") (auto simp: ebind_def)
    show "list_all (\<lambda>sc. take 2 (prices sc) = buy_slots given) y"
      using pattern_3_with_peak_prices[OF g0]
      by (simp add: y multiply_generator_probability_def list_all_iff)
  qed
  then show ?thesis by (auto simp: g list_all_iff)
qed

lemma first_buy_prices:
  assumes "generate_possibilities F sell_prices True pp = Inr g"
  shows "list_all (\<lambda>sc. \<exists>b. 90 \<le> b \<and> b \<le> 110
                     \<and> take 2 (prices sc) = buy_slots (set_buy_price sell_prices b)) g"
proof -
  let ?f = "\<lambda>buy_price. generate_pattern_3 F (set_buy_price sell_prices buy_price)"
  let ?Q = "\<lambda>sc. \<exists>b. 90 \<le> b \<and> b \<le> 110
                     \<and> take 2 (prices sc) = buy_slots (set_buy_price sell_prices b)"
  obtain gs where gs: "emap ?f [90..110] = Inr gs" and g: "g = concat gs"
    using assms unfolding generate_possibilities_def
    by (cases "emap ?f [90..110]") (auto simp: ebind_def Let_def)
  have "list_all (list_all ?Q) gs"
  proof (rule emap_list_all[OF gs])
    fix x :: int and y assume x: "x \<in> set [90..110]" and y: "?f x = Inr y"
    have "90 \<le> x" "x \<le> 110" using x by (simp_all only: set_upto atLeastAtMost_iff)
    then show "list_all ?Q y"
      using pattern_3_prices[OF y] by (auto simp: list_all_iff)
  qed
  then show ?thesis by (auto simp: g list_all_iff)
qed

lemma summarize_prices:
  assumes "summarize gp = Inr rs"
  shows "set (map prices (tl rs)) = set (map prices gp)"
proof -
  define total where "total = foldl (\<lambda>acc it. acc + probability it) (Fin 0) gp"
  define norm where "norm = map (\<lambda>it. it\<lparr>probability := probability it / total\<rparr>) gp"
  let ?f = "\<lambda>poss. ebind (week_stats (prices poss)) (\<lambda>w. Inr (poss, w))"
  obtain ww where ww: "emap ?f norm = Inr ww"
    using assms unfolding summarize_def Let_def norm_def total_def
    by (cases "emap ?f (map (\<lambda>it. it\<lparr>probability := probability it
              / foldl (\<lambda>acc it. acc + probability it) (Fin 0) gp\<rparr>) gp)")
       (auto simp: ebind_def)
  define results where "results = map (\<lambda>(poss, w).
                           \<lparr>patternNumber = patternNumber poss, patternName = patternName poss,
                            prices = prices poss, probability = probability poss,
                            weekGuaranteedMinimum = fst w, weekMax = snd w,
                            categoryTotalProbability =
                              (if patternNumber poss < 4
                               then category_total norm (patternNumber poss)
                               else NaN)\<rparr>) ww"
  define sorted where "sorted = sort_by compare_possibilities results"
  have tl: "tl rs = sorted"
    using assms ww
    unfolding summarize_def Let_def sorted_def results_def norm_def total_def
    by (auto simp: ebind_def split: sum.splits)
  have fst: "map fst ww = norm" by (rule emap_pair_fst[OF ww])
  have "map prices results = map (\<lambda>p. prices (fst p)) ww"
    unfolding results_def by (simp add: case_prod_beta)
  also have "\<dots> = map prices (map fst ww)" by simp
  also have "\<dots> = map prices gp" unfolding fst norm_def by simp
  finally have pn: "map prices results = map prices gp" .
  have "set (map prices sorted) = set (map prices results)"
    unfolding sorted_def by (simp only: set_map set_sort_by)
  then show ?thesis using tl pn by simp
qed

text \<open>
  C4: with \<open>firstBuy = true\<close> the possibilities are those of
  \<^verbatim>\<open>generate_pattern_3\<close> for the buy prices 90, 91, ..., 110 in this order, passed on
  with their probabilities as they are; the prices given to \<^verbatim>\<open>generate_pattern_3\<close> for
  the candidate \<open>b\<close> hold \<open>b\<close> in slots 0 and 1 and the sell prices of the input in
  every slot from 2 on; the result of \<^verbatim>\<open>analyzePossibilities\<close> does not depend on the
  previous pattern; and in every result the first row is the ALL row (pattern number 4)
  and every other row has pattern number 3 and, as its first two prices, one candidate
  buy price between 90 and 110 (minimum and maximum equal).
\<close>

theorem first_buy_only_pattern_3:
  "generate_possibilities F sell_prices True previous_pattern
     = ebind (emap (\<lambda>buy_price. generate_pattern_3 F (set_buy_price sell_prices buy_price))
                [90..110])
         (\<lambda>gs. Inr (concat gs))
   \<and> set [90..110] = {90..110} \<and> distinct [90..110::int]
   \<and> num_at (set_buy_price sell_prices b) 0 = Fin (real_of_int b)
   \<and> num_at (set_buy_price sell_prices b) 1 = Fin (real_of_int b)
   \<and> (2 \<le> i \<longrightarrow> num_at (set_buy_price sell_prices b) i = num_at sell_prices i)
   \<and> analyzePossibilities sell_prices True previous_pattern
     = analyzePossibilities sell_prices True previous_pattern'
   \<and> (analyzePossibilities sell_prices True previous_pattern = Inr rs
        \<longrightarrow> rs \<noteq> [] \<and> patternNumber (hd rs) = 4
            \<and> list_all (\<lambda>r. patternNumber r = 3) (tl rs)
            \<and> list_all (\<lambda>r. \<exists>c. 90 \<le> c \<and> c \<le> 110
                 \<and> take 2 (prices r)
                   = [\<lparr>min_price = Fin (real_of_int c), max_price = Fin (real_of_int c)\<rparr>,
                      \<lparr>min_price = Fin (real_of_int c), max_price = Fin (real_of_int c)\<rparr>])
                (tl rs))"
proof -
  have 1: "generate_possibilities F sell_prices True previous_pattern
     = ebind (emap (\<lambda>buy_price. generate_pattern_3 F (set_buy_price sell_prices buy_price))
                [90..110])
         (\<lambda>gs. Inr (concat gs))"
    unfolding generate_possibilities_def Let_def by (simp del: upto.simps)
  have 2: "analyzePossibilities sell_prices True previous_pattern
             = analyzePossibilities sell_prices True previous_pattern'"
    by (simp add: analyzePossibilities_def generate_possibilities_def)
  let ?Q = "\<lambda>ps. \<exists>c. 90 \<le> c \<and> c \<le> 110
                 \<and> take 2 ps
                   = [\<lparr>min_price = Fin (real_of_int c), max_price = Fin (real_of_int c)\<rparr>,
                      \<lparr>min_price = Fin (real_of_int c), max_price = Fin (real_of_int c)\<rparr>]"
  have 3: "rs \<noteq> [] \<and> patternNumber (hd rs) = 4 \<and> list_all (\<lambda>r. patternNumber r = 3) (tl rs)
           \<and> list_all (\<lambda>r. ?Q (prices r)) (tl rs)"
    if rs: "analyzePossibilities sell_prices True previous_pattern = Inr rs"
  proof -
    let ?gen = "\<lambda>F. generate_possibilities F sell_prices True previous_pattern"
    obtain F' g where e: "escalate ?gen [0..<6] (Fin 0, []) = Inr (F', g)"
      and s: "summarize g = Inr rs"
      using rs unfolding analyzePossibilities_def
      by (cases "escalate ?gen [0..<6] (Fin 0, [])") (auto simp: ebind_def)
    have "list_all (\<lambda>sc. patternNumber sc = 3) g"
      using escalate_result[OF e] first_buy_number by auto
    then have "set (map patternNumber g) \<subseteq> {3}" by (auto simp: list_all_iff)
    then have "set (map patternNumber (tl rs)) \<subseteq> {3}"
      using summarize_numbers[OF s] by simp
    then have a: "list_all (\<lambda>r. patternNumber r = 3) (tl rs)" by (auto simp: list_all_iff)
    have "list_all (\<lambda>sc. \<exists>b. 90 \<le> b \<and> b \<le> 110
                     \<and> take 2 (prices sc) = buy_slots (set_buy_price sell_prices b)) g"
      using escalate_result[OF e] first_buy_prices by auto
    then have "list_all (\<lambda>sc. ?Q (prices sc)) g"
      unfolding buy_slots_set_buy_price .
    then have "\<forall>ps \<in> set (map prices g). ?Q ps" by (simp add: list_all_iff)
    then have "\<forall>ps \<in> set (map prices (tl rs)). ?Q ps"
      unfolding summarize_prices[OF s] .
    then have b: "list_all (\<lambda>r. ?Q (prices r)) (tl rs)" by (simp add: list_all_iff)
    show ?thesis using summarize_numbers[OF s] a b by simp
  qed
  have 4: "set [90..110] = {90..110::int}" "distinct [90..110::int]"
    by (simp_all only: set_upto distinct_upto)
  have 5: "num_at (set_buy_price sell_prices b) 0 = Fin (real_of_int b)"
    "num_at (set_buy_price sell_prices b) 1 = Fin (real_of_int b)"
    by (rule num_at_set_buy_price_0)+
  have 6: "2 \<le> i \<longrightarrow> num_at (set_buy_price sell_prices b) i = num_at sell_prices i"
    by (simp add: num_at_set_buy_price)
  show ?thesis using 1 2 3 4 5 6 by blast
qed

text \<open>
  When every possibility has 14 prices, none of the index reads of the summary throws;
  with all sell prices missing and the first buy, 21 buy prices times 8 peak starts
  give 168 possibilities.
\<close>

lemma week_stats_Inr:
  assumes "length ps = 14"
  shows "\<exists>w. week_stats ps = Inr w"
proof -
  have "pred_at ps (int (length ps) - 1) = Inr (ps ! 13)"
    using assms by (simp add: pred_at_def)
  then show ?thesis
    by (simp add: week_stats_def Let_def ebind_def split: prod.splits)
qed

lemma global_day_Inr:
  assumes "0 \<le> day" and "day < 14"
  shows "(\<And>r. r \<in> set rs \<Longrightarrow> length (prices r) = 14) \<Longrightarrow> \<exists>m. global_day day rs acc = Inr m"
proof (induction rs arbitrary: acc)
  case Nil
  then show ?case by simp
next
  case (Cons r rs)
  have "length (prices r) = 14" using Cons.prems by simp
  then have at: "pred_at (prices r) day = Inr (prices r ! nat day)"
    using assms by (simp add: pred_at_def)
  show ?case
    unfolding global_day.simps at ebind_def Let_def
    using Cons.IH Cons.prems by simp
qed

lemma summarize_Inr:
  assumes len: "\<And>s. s \<in> set gp \<Longrightarrow> length (prices s) = 14"
  shows "\<exists>rs. summarize gp = Inr rs"
proof -
  define total where "total = foldl (\<lambda>acc it. acc + probability it) (Fin 0) gp"
  define norm where "norm = map (\<lambda>it. it\<lparr>probability := probability it / total\<rparr>) gp"
  let ?f = "\<lambda>poss. ebind (week_stats (prices poss)) (\<lambda>w. Inr (poss, w))"
  have "\<exists>ww. emap ?f norm = Inr ww \<and> length ww = length norm
             \<and> list_all (\<lambda>pw. length (prices (fst pw)) = 14) ww"
  proof (rule emap_Inr)
    fix x assume "x \<in> set norm"
    then have l: "length (prices x) = 14" using len unfolding norm_def by auto
    then obtain w where "week_stats (prices x) = Inr w" using week_stats_Inr by blast
    then show "\<exists>y. ?f x = Inr y \<and> length (prices (fst y)) = 14"
      using l by (simp add: ebind_def)
  qed
  then obtain ww where ww: "emap ?f norm = Inr ww"
    and wl: "list_all (\<lambda>pw. length (prices (fst pw)) = 14) ww" by blast
  define results where "results = map (\<lambda>(poss, w).
                           \<lparr>patternNumber = patternNumber poss, patternName = patternName poss,
                            prices = prices poss, probability = probability poss,
                            weekGuaranteedMinimum = fst w, weekMax = snd w,
                            categoryTotalProbability =
                              (if patternNumber poss < 4
                               then category_total norm (patternNumber poss)
                               else NaN)\<rparr>) ww"
  define sorted where "sorted = sort_by compare_possibilities results"
  have "\<And>r. r \<in> set results \<Longrightarrow> length (prices r) = 14"
    using wl unfolding results_def by (auto simp: list_all_iff)
  then have sl: "\<And>r. r \<in> set sorted \<Longrightarrow> length (prices r) = 14"
    unfolding sorted_def by (simp add: set_sort_by)
  have "\<exists>gm. emap (\<lambda>day. global_day day sorted \<lparr>min_price = Fin 999, max_price = Fin 0\<rparr>)
               [0..13] = Inr gm \<and> length gm = length [0..13::int] \<and> list_all (\<lambda>_. True) gm"
  proof (rule emap_Inr)
    fix day :: int assume "day \<in> set [0..13]"
    then have "0 \<le> day" "day < 14" by auto
    from global_day_Inr[OF this sl]
    show "\<exists>y. global_day day sorted \<lparr>min_price = Fin 999, max_price = Fin 0\<rparr> = Inr y \<and> True"
      by simp
  qed
  then obtain gm where gm:
    "emap (\<lambda>day. global_day day sorted \<lparr>min_price = Fin 999, max_price = Fin 0\<rparr>) [0..13] = Inr gm"
    by blast
  show ?thesis
    using ww gm
    unfolding summarize_def Let_def sorted_def results_def norm_def total_def
    by (simp add: ebind_def)
qed

lemma length_concat_const:
  "list_all (\<lambda>y. length y = n) ys \<Longrightarrow> length (concat ys) = n * length ys"
  by (induction ys) simp_all

lemma pattern_3_missing:
  assumes miss: "\<And>i. 2 \<le> i \<Longrightarrow> isNaN (num_at given i)"
  shows "\<exists>g. generate_pattern_3 F given = Inr g \<and> length g = 8
             \<and> list_all (\<lambda>sc. length (prices sc) = 14) g"
proof -
  let ?f = "\<lambda>peak_start. ebind (generate_pattern_3_with_peak F given peak_start)
              (\<lambda>g. Inr (multiply_generator_probability g (Fin 1 / Fin (10 - 2))))"
  let ?Q = "\<lambda>y. length y = 1 \<and> list_all (\<lambda>sc. length (prices sc) = 14) y"
  have "\<exists>gs. emap ?f [2..9] = Inr gs \<and> length gs = length [2..9::int] \<and> list_all ?Q gs"
  proof (rule emap_Inr)
    fix ps :: int assume "ps \<in> set [2..9]"
    then have "2 \<le> ps" "ps \<le> 9" by auto
    from pattern_3_with_peak_missing[OF miss this, of F]
    obtain sc where "generate_pattern_3_with_peak F given ps = Inr [sc]"
      "length (prices sc) = 14" by blast
    then show "\<exists>y. ?f ps = Inr y \<and> ?Q y"
      by (simp add: ebind_def multiply_generator_probability_def)
  qed
  then obtain gs where gs: "emap ?f [2..9] = Inr gs" "length gs = 8" "list_all ?Q gs"
    by auto
  have "list_all (\<lambda>y. length y = 1) gs" using gs(3) by (auto simp: list_all_iff)
  then have "length (concat gs) = 8" using length_concat_const[of 1 gs] gs(2) by simp
  moreover have "list_all (\<lambda>sc. length (prices sc) = 14) (concat gs)"
    using gs(3) by (auto simp: list_all_iff)
  ultimately show ?thesis
    unfolding generate_pattern_3_def gs(1) by (simp add: ebind_def)
qed

lemma first_buy_missing:
  assumes miss: "\<And>i. 2 \<le> i \<Longrightarrow> isNaN (num_at sell_prices i)"
  shows "\<exists>g. generate_possibilities F sell_prices True pp = Inr g \<and> length g = 168
             \<and> list_all (\<lambda>sc. length (prices sc) = 14) g"
proof -
  let ?f = "\<lambda>buy_price. generate_pattern_3 F (set_buy_price sell_prices buy_price)"
  let ?Q = "\<lambda>y. length y = 8 \<and> list_all (\<lambda>sc. length (prices sc) = 14) y"
  have "\<exists>gs. emap ?f [90..110] = Inr gs \<and> length gs = length [90..110::int] \<and> list_all ?Q gs"
  proof (rule emap_Inr)
    fix b :: int
    have "\<And>i. 2 \<le> i \<Longrightarrow> isNaN (num_at (set_buy_price sell_prices b) i)"
      using miss by (simp add: num_at_set_buy_price)
    from pattern_3_missing[OF this, of F]
    show "\<exists>y. ?f b = Inr y \<and> ?Q y" by blast
  qed
  then obtain gs where gs: "emap ?f [90..110] = Inr gs" "length gs = 21" "list_all ?Q gs"
    by auto
  have "list_all (\<lambda>y. length y = 8) gs" using gs(3) by (auto simp: list_all_iff)
  then have "length (concat gs) = 168" using length_concat_const[of 8 gs] gs(2) by simp
  moreover have "list_all (\<lambda>sc. length (prices sc) = 14) (concat gs)"
    using gs(3) by (auto simp: list_all_iff)
  moreover have "generate_possibilities F sell_prices True pp
                   = ebind (emap ?f [90..110]) (\<lambda>gs. Inr (concat gs))"
    by (simp add: generate_possibilities_def Let_def)
  ultimately show ?thesis
    unfolding gs(1) by (simp add: ebind_def)
qed

lemma escalate_stops:
  "gen (Fin (real i)) = Inr g \<Longrightarrow> g \<noteq> []
   \<Longrightarrow> escalate gen (i # rest) st = Inr (Fin (real i), g)"
  by (simp add: ebind_def)

lemma emap_member:
  "emap f xs = Inr gs \<Longrightarrow> x \<in> set xs \<Longrightarrow> \<exists>y. f x = Inr y \<and> set y \<subseteq> set (concat gs)"
proof (induction xs arbitrary: gs)
  case Nil
  then show ?case by simp
next
  case (Cons a xs)
  obtain y where y: "f a = Inr y" using Cons.prems(1) by (cases "f a") (auto simp: ebind_def)
  obtain ys where ys: "emap f xs = Inr ys"
    using Cons.prems(1) y by (cases "emap f xs") (auto simp: ebind_def)
  have gs: "gs = y # ys" using Cons.prems(1) y ys by (simp add: ebind_def)
  show ?case
  proof (cases "x = a")
    case True
    then show ?thesis using y gs by auto
  next
    case False
    then have "x \<in> set xs" using Cons.prems(2) by simp
    from Cons.IH[OF ys this] show ?thesis using gs by auto
  qed
qed

lemma first_buy_missing_every_candidate:
  assumes miss: "\<And>i. 2 \<le> i \<Longrightarrow> isNaN (num_at sell_prices i)"
    and g: "generate_possibilities F sell_prices True pp = Inr g"
    and b: "90 \<le> b" "b \<le> 110"
  shows "\<exists>sc \<in> set g. take 2 (prices sc) = buy_slots (set_buy_price sell_prices b)"
proof -
  let ?f = "\<lambda>buy_price. generate_pattern_3 F (set_buy_price sell_prices buy_price)"
  obtain gs where gs: "emap ?f [90..110] = Inr gs" and c: "g = concat gs"
    using g unfolding generate_possibilities_def
    by (cases "emap ?f [90..110]") (auto simp: ebind_def Let_def)
  have "b \<in> set [90..110]" using b by (simp only: set_upto atLeastAtMost_iff)
  from emap_member[OF gs this]
  obtain y where y: "?f b = Inr y" "set y \<subseteq> set g" unfolding c by blast
  have "\<And>i. 2 \<le> i \<Longrightarrow> isNaN (num_at (set_buy_price sell_prices b) i)"
    using miss by (simp add: num_at_set_buy_price)
  from pattern_3_missing[OF this, of F] y(1) have "length y = 8" by auto
  then obtain sc where sc: "sc \<in> set y" by (cases y) auto
  have "take 2 (prices sc) = buy_slots (set_buy_price sell_prices b)"
    using pattern_3_prices[OF y(1)] sc by (simp add: list_all_iff)
  then show ?thesis using sc y(2) by blast
qed

text \<open>
  The test of the repository (\<^verbatim>\<open>test.ts\<close>): prices \<open>[97, 97]\<close>, first buy, no
  previous pattern. The result has 169 rows: the ALL row and 168 rows of pattern 3;
  the first two prices of every such row are a candidate between 90 and 110, and every
  candidate between 90 and 110 is the buy price of some row.
\<close>

theorem first_buy_only_pattern_3_witness:
  "\<exists>rs. analyzePossibilities [Fin 97, Fin 97] True Undefined = Inr rs \<and> length rs = 169
        \<and> list_all (\<lambda>r. patternNumber r = 3) (tl rs)
        \<and> list_all (\<lambda>r. \<exists>c. 90 \<le> c \<and> c \<le> 110
             \<and> take 2 (prices r)
               = [\<lparr>min_price = Fin (real_of_int c), max_price = Fin (real_of_int c)\<rparr>,
                  \<lparr>min_price = Fin (real_of_int c), max_price = Fin (real_of_int c)\<rparr>])
            (tl rs)
        \<and> list_all (\<lambda>c. list_ex (\<lambda>r. take 2 (prices r)
               = [\<lparr>min_price = Fin (real_of_int c), max_price = Fin (real_of_int c)\<rparr>,
                  \<lparr>min_price = Fin (real_of_int c), max_price = Fin (real_of_int c)\<rparr>])
            (tl rs)) [90..110]"
proof -
  have miss: "\<And>i. 2 \<le> i \<Longrightarrow> isNaN (num_at [Fin 97, Fin 97] i)"
    by (simp add: num_at_def isNaN_def)
  from first_buy_missing[OF miss, of "Fin (real 0)" Undefined]
  obtain g where g: "generate_possibilities (Fin (real 0)) [Fin 97, Fin 97] True Undefined = Inr g"
    "length g = 168" "list_all (\<lambda>sc. length (prices sc) = 14) g" by blast
  have "g \<noteq> []" using g(2) by auto
  then have e: "escalate (\<lambda>F. generate_possibilities F [Fin 97, Fin 97] True Undefined)
                  [0..<6] (Fin 0, []) = Inr (Fin (real 0), g)"
    unfolding upt_6 using g(1) by (rule escalate_stops[rotated])
  obtain rs where rs: "summarize g = Inr rs"
    using summarize_Inr[of g] g(3) by (auto simp: list_all_iff)
  have a: "analyzePossibilities [Fin 97, Fin 97] True Undefined = Inr rs"
    unfolding analyzePossibilities_def e by (simp add: ebind_def rs)
  have 1: "length rs = 169" using summarize_numbers[OF rs] g(2) by simp
  have 2: "list_all (\<lambda>r. patternNumber r = 3) (tl rs)"
    "list_all (\<lambda>r. \<exists>c. 90 \<le> c \<and> c \<le> 110
             \<and> take 2 (prices r)
               = [\<lparr>min_price = Fin (real_of_int c), max_price = Fin (real_of_int c)\<rparr>,
                  \<lparr>min_price = Fin (real_of_int c), max_price = Fin (real_of_int c)\<rparr>])
            (tl rs)"
    using first_buy_only_pattern_3[where sell_prices = "[Fin 97, Fin 97]"
            and previous_pattern = Undefined and rs = rs] a by blast+
  have 3: "list_ex (\<lambda>r. take 2 (prices r)
               = [\<lparr>min_price = Fin (real_of_int c), max_price = Fin (real_of_int c)\<rparr>,
                  \<lparr>min_price = Fin (real_of_int c), max_price = Fin (real_of_int c)\<rparr>])
            (tl rs)" if c: "c \<in> set [90..110]" for c :: int
  proof -
    have "90 \<le> c" "c \<le> 110" using c by (simp_all only: set_upto atLeastAtMost_iff)
    from first_buy_missing_every_candidate[OF miss g(1) this]
    obtain sc where sc: "sc \<in> set g"
      "take 2 (prices sc) = buy_slots (set_buy_price [Fin 97, Fin 97] c)" by blast
    have "prices sc \<in> set (map prices (tl rs))"
      unfolding summarize_prices[OF rs] using sc(1) by simp
    then obtain r where r: "r \<in> set (tl rs)" "prices r = prices sc" by auto
    have "take 2 (prices r) = buy_slots (set_buy_price [Fin 97, Fin 97] c)"
      by (simp only: r(2) sc(2))
    then show ?thesis
      unfolding buy_slots_set_buy_price list_ex_iff using r(1) by (rule bexI)
  qed
  have 4: "list_all (\<lambda>c. list_ex (\<lambda>r. take 2 (prices r)
               = [\<lparr>min_price = Fin (real_of_int c), max_price = Fin (real_of_int c)\<rparr>,
                  \<lparr>min_price = Fin (real_of_int c), max_price = Fin (real_of_int c)\<rparr>])
            (tl rs)) [90..110]"
    unfolding list_all_iff using 3 by blast
  show ?thesis using a 1 2 4 by blast
qed

subsection \<open>An escalation that stops at fudge factor 1\<close>







end
